theory Spec2Isabelle
  imports Complex_Main "HOL-Library.Sublist" "HOL-Library.Char_ord" "HOL-Library.List_Lexorder"
begin

section \<open>Strings\<close>

text \<open>
  A Python \<open>str\<close> is a sequence of code points. It is modelled as a \<open>string\<close>, each
  \<open>char\<close> standing for one code point below 256 (ASCII and Latin-1). On these code
  points \<open>str.lower\<close> maps one character to one character, and \<open>str.isspace\<close>, which
  \<open>str.strip\<close> and the regular-expression class \<open>\s\<close> both use, holds for the twelve
  code points listed in \<open>is_space\<close>.
\<close>

definition is_space :: "char \<Rightarrow> bool" where
  "is_space c = (of_char c \<in> {9, 10, 11, 12, 13, 28, 29, 30, 31, 32, 133, 160 :: nat})"

definition lower_char :: "char \<Rightarrow> char" where
  "lower_char c =
     (let n = (of_char c :: nat)
      in if (65 \<le> n \<and> n \<le> 90) \<or> (192 \<le> n \<and> n \<le> 222 \<and> n \<noteq> 215)
         then char_of (n + 32) else c)"


definition lower :: "string \<Rightarrow> string" where
  "lower s = map lower_char s"

definition lstrip :: "string \<Rightarrow> string" where
  "lstrip s = dropWhile is_space s"

definition rstrip :: "string \<Rightarrow> string" where
  "rstrip s = rev (dropWhile is_space (rev s))"

definition strip :: "string \<Rightarrow> string" where
  "strip s = rstrip (lstrip s)"

text \<open>\<open>sub in s\<close>: \<open>sub\<close> occurs in \<open>s\<close> as a contiguous run.\<close>

fun str_in :: "string \<Rightarrow> string \<Rightarrow> bool" where
  "str_in sub [] = (sub = [])"
| "str_in sub (c # cs) = (prefix sub (c # cs) \<or> str_in sub cs)"

text \<open>\<open>sep.join(xs)\<close>\<close>

fun join :: "string \<Rightarrow> string list \<Rightarrow> string" where
  "join sep [] = []"
| "join sep [x] = x"
| "join sep (x # y # ys) = x @ sep @ join sep (y # ys)"

section \<open>Data model\<close>

text \<open>
  The dictionaries of the program are read at the shape the catalog gives them: a key
  holds a value of its own type or is missing. A field of type \<open>option\<close> is \<open>None\<close> when
  the key is absent. In the normalized record, the scalar keys that \<open>extract_credits\<close>
  binds to \<open>None\<close> (title, length, release title and date) are \<open>None\<close> as well; the
  readers of the record treat them like absent keys. Elsewhere a key bound to \<open>None\<close>
  is outside this shape: \<open>artist-credit\<close>, the \<open>type\<close> of a relation and \<open>credits\<close>
  are a list, a string and a dictionary whenever they are present.

  The normalized record built by \<open>extract_credits\<close> and extended with \<open>_mbid\<close> by the
  retrieval wrapper; \<open>credits\<close> is itself a dictionary from role names to name lists.
\<close>

record info =
  info_title :: "string option"
  info_length_ms :: "int option"
  info_artists :: "string list option"
  info_release_title :: "string option"
  info_release_date :: "string option"
  info_credits :: "(string \<rightharpoonup> string list) option"
  info_mbid :: "string option"

text \<open>\<open>not info\<close>: the dictionary has no key at all.\<close>

definition info_is_empty :: "info \<Rightarrow> bool" where
  "info_is_empty i =
     (info_title i = None \<and> info_length_ms i = None \<and> info_artists i = None \<and>
      info_release_title i = None \<and> info_release_date i = None \<and>
      info_credits i = None \<and> info_mbid i = None)"

text \<open>
  The raw catalog entity of one recording, as the search and the fetch return it. The
  nested \<open>artist\<close> object of a relation is kept as an association list of its keys,
  since the code tests the object itself for emptiness before it reads \<open>name\<close>.
\<close>

record artist_credit =
  ac_name :: "string option"

record release =
  rl_title :: "string option"
  rl_date :: "string option"

type_synonym json_object = "(string \<times> string) list"

record relation =
  rel_type :: "string option"
  rel_artist :: "json_object option"
  rel_target_credit :: "string option"
  rel_target :: "string option"

record recording =
  rec_id :: "string option"
  rec_title :: "string option"
  rec_length :: "int option"
  rec_artist_credit :: "artist_credit list option"
  rec_releases :: "release list option"
  rec_relations :: "relation list option"
  rec_relation_list :: "relation list option"

text \<open>Truthiness of an optional string: present and not empty.\<close>

fun truthy :: "string option \<Rightarrow> bool" where
  "truthy None = False"
| "truthy (Some s) = (s \<noteq> [])"

text \<open>\<open>x or default\<close> on an optional string, and on an optional list.\<close>

fun str_or :: "string option \<Rightarrow> string \<Rightarrow> string" where
  "str_or None d = d"
| "str_or (Some s) d = (if s \<noteq> [] then s else d)"

fun list_or_empty :: "'a list option \<Rightarrow> 'a list" where
  "list_or_empty None = []"
| "list_or_empty (Some xs) = xs"

datatype py_error = IndexError | KeyError

section \<open>Deterministic producer check (test3.py)\<close>

text \<open>\<open>info.get("credits", {}).get("producer", []) or []\<close>\<close>

definition producers_of :: "info \<Rightarrow> string list" where
  "producers_of i =
     (case info_credits i of
        None \<Rightarrow> []
      | Some c \<Rightarrow> (case c ''producer'' of None \<Rightarrow> [] | Some ps \<Rightarrow> ps))"

text \<open>First loop: \<open>for p in producers: if p and p.lower().strip() == aq: return True\<close>\<close>

fun exact_pass :: "string \<Rightarrow> string list \<Rightarrow> bool" where
  "exact_pass aq [] = False"
| "exact_pass aq (p # ps) =
     (if p \<noteq> [] \<and> strip (lower p) = aq then True else exact_pass aq ps)"

text \<open>Second loop: \<open>for p in producers: if p and aq in p.lower(): return True\<close>\<close>

fun substring_pass :: "string \<Rightarrow> string list \<Rightarrow> bool" where
  "substring_pass aq [] = False"
| "substring_pass aq (p # ps) =
     (if p \<noteq> [] \<and> str_in aq (lower p) then True else substring_pass aq ps)"

text \<open>The result is \<open>Optional[bool]\<close>: \<open>None\<close> is the indeterminate answer.\<close>

definition deterministic_producer_check :: "info \<Rightarrow> string \<Rightarrow> bool option" where
  "deterministic_producer_check i artist_query =
     (if info_is_empty i then None
      else let producers = producers_of i
           in if producers = [] then None
              else let aq = strip (lower artist_query)
                   in if exact_pass aq producers then Some True
                      else if substring_pass aq producers then Some True
                      else Some False)"

text \<open>
  The single-pass variant the specification compares with: the same function without the
  exact-match loop.
\<close>

definition substring_only_check :: "info \<Rightarrow> string \<Rightarrow> bool option" where
  "substring_only_check i artist_query =
     (if info_is_empty i then None
      else let producers = producers_of i
           in if producers = [] then None
              else let aq = strip (lower artist_query)
                   in if substring_pass aq producers then Some True
                      else Some False)"

section \<open>Regular expressions of the query parser\<close>

text \<open>
  The patterns of \<open>parse_query\<close> are sequences of one-character tests, each taken once,
  optionally (\<open>?\<close>), or one or more times, greedily (\<open>+\<close>) or lazily (\<open>+?\<close>), two of
  them inside the named groups \<open>title\<close> and \<open>artist\<close>. \<open>re.search\<close> is the backtracking
  matcher of Python: it tries every start position from the left, and at each
  quantifier the longer alternative first when greedy, the shorter first when lazy.
\<close>

datatype atom =
    Lit char      \<comment> \<open>a literal character, under \<open>re.IGNORECASE\<close>\<close>
  | Space         \<comment> \<open>\<open>\s\<close>\<close>
  | Quote         \<comment> \<open>the class of the single and the double quote\<close>
  | AnyChar       \<comment> \<open>\<open>.\<close>: any character but the newline\<close>

datatype quant = One | Opt | Plus bool | Star bool  \<comment> \<open>the flag is True for a lazy quantifier\<close>

datatype group = NoGroup | GTitle | GArtist

type_synonym piece = "atom \<times> quant \<times> group"

type_synonym captures = "string \<times> string"

fun atom_ok :: "atom \<Rightarrow> char \<Rightarrow> bool" where
  "atom_ok (Lit l) c = (lower_char c = lower_char l)"
| "atom_ok Space c = is_space c"
| "atom_ok Quote c = (c = CHR 0x27 \<or> c = CHR 0x22)"
| "atom_ok AnyChar c = (c \<noteq> CHR 0x0A)"

fun capture :: "group \<Rightarrow> char \<Rightarrow> captures \<Rightarrow> captures" where
  "capture NoGroup c (t, a) = (t, a)"
| "capture GTitle c (t, a) = (t @ [c], a)"
| "capture GArtist c (t, a) = (t, a @ [c])"

text \<open>
  \<open>rmatch ps s caps\<close> matches the pieces \<open>ps\<close> at the start of \<open>s\<close> and returns the groups
  of the first alternative that succeeds. \<open>Star\<close> is what remains of a \<open>Plus\<close> once its
  first character is taken.
\<close>

fun rmatch :: "piece list \<Rightarrow> string \<Rightarrow> captures \<Rightarrow> captures option" where
  "rmatch [] s caps = Some caps"
| "rmatch ((a, One, g) # ps) [] caps = None"
| "rmatch ((a, One, g) # ps) (c # cs) caps =
     (if atom_ok a c then rmatch ps cs (capture g c caps) else None)"
| "rmatch ((a, Opt, g) # ps) [] caps = rmatch ps [] caps"
| "rmatch ((a, Opt, g) # ps) (c # cs) caps =
     (case (if atom_ok a c then rmatch ps cs (capture g c caps) else None) of
        Some r \<Rightarrow> Some r
      | None \<Rightarrow> rmatch ps (c # cs) caps)"
| "rmatch ((a, Plus lz, g) # ps) [] caps = None"
| "rmatch ((a, Plus lz, g) # ps) (c # cs) caps =
     (if atom_ok a c then rmatch ((a, Star lz, g) # ps) cs (capture g c caps) else None)"
| "rmatch ((a, Star lz, g) # ps) [] caps = rmatch ps [] caps"
| "rmatch ((a, Star lz, g) # ps) (c # cs) caps =
     (if lz
      then (case rmatch ps (c # cs) caps of
              Some r \<Rightarrow> Some r
            | None \<Rightarrow>
                (if atom_ok a c then rmatch ((a, Star lz, g) # ps) cs (capture g c caps)
                 else None))
      else (case (if atom_ok a c then rmatch ((a, Star lz, g) # ps) cs (capture g c caps)
                  else None) of
              Some r \<Rightarrow> Some r
            | None \<Rightarrow> rmatch ps (c # cs) caps))"

text \<open>\<open>re.search\<close>: the first start position, from the left, where the pattern matches.\<close>

fun search :: "piece list \<Rightarrow> string \<Rightarrow> captures option" where
  "search ps [] = rmatch ps [] ([], [])"
| "search ps (c # cs) =
     (case rmatch ps (c # cs) ([], []) of Some r \<Rightarrow> Some r | None \<Rightarrow> search ps cs)"

definition lit :: "string \<Rightarrow> piece list" where
  "lit s = map (\<lambda>c. (Lit c, One, NoGroup)) s"

definition spaces :: "piece list" where
  "spaces = [(Space, Plus False, NoGroup)]"

text \<open>\<open>['\"]?(?P<title>.+?)['\"]?\s+by\s+(?P<artist>.+)\<close>, the tail the first three patterns share.\<close>

definition quoted_title_by_artist :: "piece list" where
  "quoted_title_by_artist =
     [(Quote, Opt, NoGroup), (AnyChar, Plus True, GTitle), (Quote, Opt, NoGroup)]
     @ spaces @ lit ''by'' @ spaces @ [(AnyChar, Plus False, GArtist)]"

definition patterns :: "piece list list" where
  "patterns =
     [lit ''tell me about'' @ spaces @ quoted_title_by_artist,
      lit ''about'' @ spaces @ quoted_title_by_artist,
      lit ''what can you tell me about'' @ spaces @ quoted_title_by_artist,
      [(AnyChar, Plus True, GTitle)] @ spaces @ lit ''by'' @ spaces
        @ [(AnyChar, Plus False, GArtist)]]"

section \<open>Query parser (test.py)\<close>

record hypothesis =
  qh_title :: string
  qh_artist :: "string option"

text \<open>The loop over the patterns: the first pattern that matches anywhere wins.\<close>

fun first_match :: "piece list list \<Rightarrow> string \<Rightarrow> captures option" where
  "first_match [] text = None"
| "first_match (p # ps) text =
     (case search p text of Some m \<Rightarrow> Some m | None \<Rightarrow> first_match ps text)"

text \<open>The position of the first occurrence of \<open>sep\<close> in a string.\<close>

fun find_sub :: "string \<Rightarrow> string \<Rightarrow> nat option" where
  "find_sub sep [] = (if sep = [] then Some 0 else None)"
| "find_sub sep (c # cs) =
     (if prefix sep (c # cs) then Some 0 else map_option Suc (find_sub sep cs))"

text \<open>\<open>text.split(sep, 1)\<close>: one part when \<open>sep\<close> does not occur, two parts otherwise.\<close>

definition split1 :: "string \<Rightarrow> string \<Rightarrow> string list" where
  "split1 sep text =
     (case find_sub sep text of
        None \<Rightarrow> [text]
      | Some k \<Rightarrow> [take k text, drop (k + length sep) text])"

text \<open>\<open>parts[i]\<close> for an index that is not negative.\<close>

definition py_index :: "'a list \<Rightarrow> nat \<Rightarrow> py_error + 'a" where
  "py_index xs i = (if i < length xs then Inr (xs ! i) else Inl IndexError)"

text \<open>
  \<open>parse_query\<close>. The local \<open>t = text.strip().lower()\<close> is never read. The test for
  the separator is made on the lowercased text, the split on the text itself.
\<close>

definition parse_query :: "string \<Rightarrow> py_error + hypothesis" where
  "parse_query text =
     (case first_match patterns text of
        Some (title, artist) \<Rightarrow>
          Inr \<lparr>qh_title = strip title, qh_artist = Some (strip artist)\<rparr>
      | None \<Rightarrow>
          if str_in '' by '' (lower text)
          then (let parts = split1 '' by '' text
                in case py_index parts 0 of
                     Inl e \<Rightarrow> Inl e
                   | Inr p0 \<Rightarrow>
                       (case py_index parts 1 of
                          Inl e \<Rightarrow> Inl e
                        | Inr p1 \<Rightarrow> Inr \<lparr>qh_title = strip p0, qh_artist = Some (strip p1)\<rparr>))
          else Inr \<lparr>qh_title = strip text, qh_artist = None\<rparr>)"

text \<open>Empty or whitespace-only text.\<close>

definition is_blank :: "string \<Rightarrow> bool" where
  "is_blank s = list_all is_space s"

text \<open>
  A separator in a text: a whitespace character, the letters b and y in either case, and
  a whitespace character, in a row. This is what \<open>\s+by\s+\<close> needs under
  \<open>re.IGNORECASE\<close>, and what \<open>" by " in text.lower()\<close> finds with plain spaces.
\<close>

fun by_here :: "string \<Rightarrow> bool" where
  "by_here (b # y # v # rest) =
     (lower_char b = CHR ''b'' \<and> lower_char y = CHR ''y'' \<and> is_space v)"
| "by_here _ = False"

fun has_separator :: "string \<Rightarrow> bool" where
  "has_separator [] = False"
| "has_separator (w # s) = ((is_space w \<and> by_here s) \<or> has_separator s)"

section \<open>Credit normalizer (test.py)\<close>

type_synonym credits = "string \<rightharpoonup> string list"

text \<open>\<open>[ac.get("name") for ac in recording_json.get("artist-credit", []) if ac.get("name")]\<close>\<close>

definition artists_of :: "recording \<Rightarrow> string list" where
  "artists_of rj =
     List.map_filter (\<lambda>ac. if truthy (ac_name ac) then ac_name ac else None)
       (list_or_empty (rec_artist_credit rj))"

text \<open>The sort key of a release: \<open>r.get("date") or "9999-99-99"\<close>.\<close>

definition release_key :: "release \<Rightarrow> string" where
  "release_key r = str_or (rl_date r) ''9999-99-99''"

text \<open>\<open>recording_json.get("relations", []) or recording_json.get("relation-list", []) or []\<close>\<close>

definition relations_of :: "recording \<Rightarrow> relation list" where
  "relations_of rj =
     (if list_or_empty (rec_relations rj) \<noteq> [] then list_or_empty (rec_relations rj)
      else if list_or_empty (rec_relation_list rj) \<noteq> [] then list_or_empty (rec_relation_list rj)
      else [])"

text \<open>
  The \<open>if\<close>/\<open>elif\<close>/\<open>elif\<close> chain that picks the name of a relation: a non-empty
  \<open>artist\<close> object decides alone, by its \<open>name\<close> key; else a non-empty
  \<open>target-credit\<close>; else a non-empty \<open>target\<close>.
\<close>

definition resolve_name :: "relation \<Rightarrow> string option" where
  "resolve_name rel =
     (if rel_artist rel \<noteq> None \<and> rel_artist rel \<noteq> Some []
      then map_of (list_or_empty (rel_artist rel)) ''name''
      else if truthy (rel_target_credit rel) then rel_target_credit rel
      else if truthy (rel_target rel) then rel_target rel
      else None)"

text \<open>The test each role makes on the lowercased type label (lines 128 to 135).\<close>

definition role_test :: "string \<Rightarrow> string \<Rightarrow> bool" where
  "role_test role rtype =
     (if role = ''composer''
        then str_in ''compose'' rtype \<or> str_in ''composer'' rtype \<or> str_in ''written'' rtype
      else if role = ''lyricist'' then str_in ''lyric'' rtype
      else if role = ''producer'' then str_in ''produce'' rtype \<or> str_in ''producer'' rtype
      else if role = ''performer'' then str_in ''performer'' rtype \<or> str_in ''perform'' rtype
      else False)"

text \<open>\<open>credits[role].append(name)\<close>; a missing key would raise.\<close>

definition append_credit :: "string \<Rightarrow> string \<Rightarrow> credits \<Rightarrow> py_error + credits" where
  "append_credit role name cr =
     (case cr role of None \<Rightarrow> Inl KeyError | Some l \<Rightarrow> Inr (cr(role \<mapsto> l @ [name])))"

definition on_ok :: "py_error + 'a \<Rightarrow> ('a \<Rightarrow> py_error + 'b) \<Rightarrow> py_error + 'b" where
  "on_ok r f = (case r of Inl e \<Rightarrow> Inl e | Inr v \<Rightarrow> f v)"

text \<open>\<open>rel.get("type", "").lower()\<close>\<close>

definition type_label :: "relation \<Rightarrow> string" where
  "type_label rel = lower (case rel_type rel of None \<Rightarrow> [] | Some t \<Rightarrow> t)"

text \<open>The body of the loop over the relations.\<close>

definition classify :: "relation \<Rightarrow> credits \<Rightarrow> py_error + credits" where
  "classify rel cr =
     (let rtype = type_label rel;
          artist_name = resolve_name rel
      in if \<not> truthy artist_name then Inr cr
         else let n = str_or artist_name [] in
           on_ok (if role_test ''composer'' rtype then append_credit ''composer'' n cr else Inr cr)
             (\<lambda>c1.
           on_ok (if role_test ''lyricist'' rtype then append_credit ''lyricist'' n c1 else Inr c1)
             (\<lambda>c2.
           on_ok (if role_test ''producer'' rtype then append_credit ''producer'' n c2 else Inr c2)
             (\<lambda>c3.
           if role_test ''performer'' rtype then append_credit ''performer'' n c3 else Inr c3))))"

fun credit_loop :: "relation list \<Rightarrow> credits \<Rightarrow> py_error + credits" where
  "credit_loop [] cr = Inr cr"
| "credit_loop (rel # rels) cr =
     (case classify rel cr of Inl e \<Rightarrow> Inl e | Inr cr' \<Rightarrow> credit_loop rels cr')"

definition initial_credits :: credits where
  "initial_credits =
     [''composer'' \<mapsto> [], ''lyricist'' \<mapsto> [], ''producer'' \<mapsto> [], ''performer'' \<mapsto> []]"

text \<open>A credits dictionary with exactly the four role keys.\<close>

definition credits_dict ::
  "string list \<Rightarrow> string list \<Rightarrow> string list \<Rightarrow> string list \<Rightarrow> credits" where
  "credits_dict composer lyricist producer performer =
     [''composer'' \<mapsto> composer, ''lyricist'' \<mapsto> lyricist,
      ''producer'' \<mapsto> producer, ''performer'' \<mapsto> performer]"

text \<open>
  The names a list of relations contributes to one role: those of the relations that have
  a name and whose type label passes the test of the role, in the order of the list.
\<close>

definition credited :: "string \<Rightarrow> relation list \<Rightarrow> string list" where
  "credited role rels =
     map (\<lambda>rel. str_or (resolve_name rel) [])
       (filter (\<lambda>rel. truthy (resolve_name rel) \<and> role_test role (type_label rel)) rels)"

text \<open>\<open>sorted\<close> is stable, as \<open>sort_key\<close> is; \<open>releases_sorted[0]\<close> is read by index.\<close>

definition extract_credits :: "recording \<Rightarrow> py_error + info" where
  "extract_credits rj =
     (let releases = list_or_empty (rec_releases rj)
      in on_ok (if releases \<noteq> []
                then on_ok (py_index (sort_key release_key releases) 0)
                       (\<lambda>first. Inr (rl_title first, rl_date first))
                else Inr (None, None))
           (\<lambda>(rtitle, rdate).
              on_ok (credit_loop (relations_of rj) initial_credits)
                (\<lambda>cr. Inr \<lparr>info_title = rec_title rj,
                            info_length_ms = rec_length rj,
                            info_artists = Some (artists_of rj),
                            info_release_title = rtitle,
                            info_release_date = rdate,
                            info_credits = Some cr,
                            info_mbid = None\<rparr>)))"

text \<open>
  The shape of the catalog's date strings: \<open>YYYY\<close>, \<open>YYYY-MM\<close> or \<open>YYYY-MM-DD\<close>.
\<close>

definition is_digit :: "char \<Rightarrow> bool" where
  "is_digit c = (CHR ''0'' \<le> c \<and> c \<le> CHR ''9'')"

definition date_shaped :: "string \<Rightarrow> bool" where
  "date_shaped d =
     (length d \<in> {4, 7, 10} \<and>
      list_all (\<lambda>i. if i = 4 \<or> i = 7 then d ! i = CHR ''-'' else is_digit (d ! i))
        [0..<length d])"

text \<open>Example entities: one with every optional key absent, one with releases and relations.\<close>

definition bare_recording :: recording where
  "bare_recording =
     \<lparr>rec_id = None, rec_title = None, rec_length = None, rec_artist_credit = None,
      rec_releases = None, rec_relations = None, rec_relation_list = None\<rparr>"

definition nameless_artist_relation :: relation where
  "nameless_artist_relation =
     \<lparr>rel_type = Some ''producer'', rel_artist = Some [(''id'', ''a1'')],
      rel_target_credit = Some ''Bob'', rel_target = None\<rparr>"

definition example_recording :: recording where
  "example_recording =
     \<lparr>rec_id = Some ''m1'', rec_title = Some ''Bohemian Rhapsody'', rec_length = Some 354000,
      rec_artist_credit = Some [\<lparr>ac_name = Some ''Queen''\<rparr>, \<lparr>ac_name = None\<rparr>],
      rec_releases =
        Some [\<lparr>rl_title = Some ''A'', rl_date = None\<rparr>,
              \<lparr>rl_title = Some ''B'', rl_date = Some ''1975-10-31''\<rparr>,
              \<lparr>rl_title = Some ''C'', rl_date = Some ''1975''\<rparr>],
      rec_relations =
        Some [\<lparr>rel_type = Some ''Producer'', rel_artist = Some [(''id'', ''a2''), (''name'', ''Roy'')],
               rel_target_credit = None, rel_target = None\<rparr>,
              \<lparr>rel_type = Some ''composer and lyricist'', rel_artist = None,
               rel_target_credit = Some ''Fred'', rel_target = Some ''zzz''\<rparr>,
              nameless_artist_relation,
              \<lparr>rel_type = Some ''performer'', rel_artist = Some [],
               rel_target_credit = None, rel_target = Some ''Brian''\<rparr>],
      rec_relation_list = None\<rparr>"

section \<open>Context builder (test3.py)\<close>









section \<open>Similarity of two strings (difflib)\<close>

text \<open>
  \<open>SequenceMatcher(None, a, b).ratio()\<close> of the standard library, as \<open>_similar\<close> calls it:
  no junk predicate, and the automatic heuristic that, in a second sequence of 200
  elements or more, drops from the index of positions every element that occurs more
  often than one position in a hundred plus one.
\<close>

definition popular :: "string \<Rightarrow> char \<Rightarrow> bool" where
  "popular b c = (200 \<le> length b \<and> length b div 100 + 1 < count_list b c)"

text \<open>
  \<open>find_longest_match\<close> keeps, for the position \<open>i\<close> of \<open>a\<close> and each indexed position
  \<open>j\<close> of \<open>b\<close> with the same element, the length of the run of equal, indexed elements
  that ends at \<open>(i, j)\<close> and stays inside the window.
\<close>

definition run_len :: "string \<Rightarrow> string \<Rightarrow> nat \<Rightarrow> nat \<Rightarrow> nat \<Rightarrow> nat \<Rightarrow> nat" where
  "run_len a b alo blo i j =
     length (takeWhile (\<lambda>(x, y). x = y \<and> \<not> popular b y)
               (zip (rev (drop alo (take (Suc i) a))) (rev (drop blo (take (Suc j) b)))))"

type_synonym match = "nat \<times> nat \<times> nat"

text \<open>A longer run replaces the best block; rows and columns are scanned upwards.\<close>

definition better :: "string \<Rightarrow> string \<Rightarrow> nat \<Rightarrow> nat \<Rightarrow> nat \<Rightarrow> nat \<Rightarrow> match \<Rightarrow> match" where
  "better a b alo blo i j best =
     (case best of (besti, bestj, bestsize) \<Rightarrow>
        let k = run_len a b alo blo i j
        in if bestsize < k then (Suc i - k, Suc j - k, k) else (besti, bestj, bestsize))"

definition scan :: "string \<Rightarrow> string \<Rightarrow> nat \<Rightarrow> nat \<Rightarrow> nat \<Rightarrow> nat \<Rightarrow> match" where
  "scan a b alo ahi blo bhi =
     fold (\<lambda>i best. fold (\<lambda>j best'. better a b alo blo i j best') [blo..<bhi] best)
       [alo..<ahi] (alo, blo, 0)"

text \<open>
  The best block is then extended at both ends over equal elements; with no junk
  predicate these are the elements the heuristic has dropped from the index.
\<close>

function extend_left :: "string \<Rightarrow> string \<Rightarrow> nat \<Rightarrow> nat \<Rightarrow> match \<Rightarrow> match" where
  "extend_left a b alo blo (besti, bestj, bestsize) =
     (if alo < besti \<and> blo < bestj \<and> a ! (besti - 1) = b ! (bestj - 1)
      then extend_left a b alo blo (besti - 1, bestj - 1, bestsize + 1)
      else (besti, bestj, bestsize))"
  by pat_completeness auto
termination
  by (relation "measure (\<lambda>(a, b, alo, blo, besti, bestj, bestsize). besti)") auto

function extend_right :: "string \<Rightarrow> string \<Rightarrow> nat \<Rightarrow> nat \<Rightarrow> match \<Rightarrow> match" where
  "extend_right a b ahi bhi (besti, bestj, bestsize) =
     (if besti + bestsize < ahi \<and> bestj + bestsize < bhi
         \<and> a ! (besti + bestsize) = b ! (bestj + bestsize)
      then extend_right a b ahi bhi (besti, bestj, bestsize + 1)
      else (besti, bestj, bestsize))"
  by pat_completeness auto
termination
  by (relation "measure (\<lambda>(a, b, ahi, bhi, besti, bestj, bestsize). ahi - (besti + bestsize))") auto

text \<open>The result \<open>(i, j, k)\<close>: \<open>a[i:i+k] == b[j:j+k]\<close>.\<close>

definition find_longest_match :: "string \<Rightarrow> string \<Rightarrow> nat \<Rightarrow> nat \<Rightarrow> nat \<Rightarrow> nat \<Rightarrow> match" where
  "find_longest_match a b alo ahi blo bhi =
     extend_right a b ahi bhi (extend_left a b alo blo (scan a b alo ahi blo bhi))"

text \<open>A block that lies inside the window \<open>a[alo:ahi]\<close>, \<open>b[blo:bhi]\<close>.\<close>

definition in_window :: "nat \<Rightarrow> nat \<Rightarrow> nat \<Rightarrow> nat \<Rightarrow> match \<Rightarrow> bool" where
  "in_window alo ahi blo bhi m =
     (case m of (i, j, k) \<Rightarrow> alo \<le> i \<and> i + k \<le> ahi \<and> blo \<le> j \<and> j + k \<le> bhi)"

lemma run_len_le: "run_len a b alo blo i j \<le> Suc i - alo \<and> run_len a b alo blo i j \<le> Suc j - blo"
proof -
  let ?z = "zip (rev (drop alo (take (Suc i) a))) (rev (drop blo (take (Suc j) b)))"
  have "run_len a b alo blo i j \<le> length ?z"
    unfolding run_len_def by (rule length_takeWhile_le)
  moreover have "length ?z \<le> Suc i - alo" by simp
  moreover have "length ?z \<le> Suc j - blo" by simp
  ultimately show ?thesis by linarith
qed

lemma better_in_window:
  assumes "in_window alo ahi blo bhi m" "alo \<le> i" "i < ahi" "blo \<le> j" "j < bhi"
  shows "in_window alo ahi blo bhi (better a b alo blo i j m)"
proof -
  obtain bi bj bk where m: "m = (bi, bj, bk)" by (cases m) auto
  have l: "run_len a b alo blo i j \<le> Suc i - alo" "run_len a b alo blo i j \<le> Suc j - blo"
    using run_len_le by blast+
  show ?thesis using assms l unfolding m better_def in_window_def Let_def by auto
qed

lemma inner_in_window:
  assumes "in_window alo ahi blo bhi m" "alo \<le> i" "i < ahi" "\<forall>j\<in>set js. blo \<le> j \<and> j < bhi"
  shows "in_window alo ahi blo bhi (fold (\<lambda>j best'. better a b alo blo i j best') js m)"
  using assms
proof (induction js arbitrary: m)
  case Nil
  then show ?case by simp
next
  case (Cons j js)
  have "in_window alo ahi blo bhi (better a b alo blo i j m)"
    using Cons.prems by (intro better_in_window) auto
  then show ?case using Cons.IH Cons.prems by simp
qed

lemma outer_in_window:
  assumes "in_window alo ahi blo bhi m" "\<forall>i\<in>set is. alo \<le> i \<and> i < ahi"
  shows "in_window alo ahi blo bhi
           (fold (\<lambda>i best. fold (\<lambda>j best'. better a b alo blo i j best') [blo..<bhi] best) is m)"
  using assms
proof (induction "is" arbitrary: m)
  case Nil
  then show ?case by simp
next
  case (Cons i "is")
  have "in_window alo ahi blo bhi (fold (\<lambda>j best'. better a b alo blo i j best') [blo..<bhi] m)"
    using Cons.prems by (intro inner_in_window) auto
  then show ?case using Cons.IH Cons.prems by simp
qed

lemma scan_in_window:
  "alo \<le> ahi \<Longrightarrow> blo \<le> bhi \<Longrightarrow> in_window alo ahi blo bhi (scan a b alo ahi blo bhi)"
  unfolding scan_def by (rule outer_in_window) (auto simp: in_window_def)

declare extend_left.simps [simp del] extend_right.simps [simp del]

lemma extend_left_in_window:
  "in_window alo ahi blo bhi m \<Longrightarrow> in_window alo ahi blo bhi (extend_left a b alo blo m)"
proof (induction a b alo blo m rule: extend_left.induct)
  case (1 a b alo blo besti bestj bestsize)
  show ?case
  proof (cases "alo < besti \<and> blo < bestj \<and> a ! (besti - 1) = b ! (bestj - 1)")
    case True
    have "in_window alo ahi blo bhi (besti - 1, bestj - 1, bestsize + 1)"
      using True "1.prems" by (auto simp: in_window_def)
    then have "in_window alo ahi blo bhi
                 (extend_left a b alo blo (besti - 1, bestj - 1, bestsize + 1))"
      using "1.IH" True by blast
    then show ?thesis using True by (subst extend_left.simps) simp
  next
    case False
    then show ?thesis using "1.prems" by (subst extend_left.simps) auto
  qed
qed

lemma extend_right_in_window:
  "in_window alo ahi blo bhi m \<Longrightarrow> in_window alo ahi blo bhi (extend_right a b ahi bhi m)"
proof (induction a b ahi bhi m rule: extend_right.induct)
  case (1 a b ahi bhi besti bestj bestsize)
  show ?case
  proof (cases "besti + bestsize < ahi \<and> bestj + bestsize < bhi
                 \<and> a ! (besti + bestsize) = b ! (bestj + bestsize)")
    case True
    have "in_window alo ahi blo bhi (besti, bestj, bestsize + 1)"
      using True "1.prems" by (auto simp: in_window_def)
    then have "in_window alo ahi blo bhi
                 (extend_right a b ahi bhi (besti, bestj, bestsize + 1))"
      using "1.IH" True by blast
    then show ?thesis using True by (subst extend_right.simps) simp
  next
    case False
    then show ?thesis using "1.prems" by (subst extend_right.simps) auto
  qed
qed

lemma find_longest_match_in_window:
  "alo \<le> ahi \<Longrightarrow> blo \<le> bhi \<Longrightarrow> in_window alo ahi blo bhi (find_longest_match a b alo ahi blo bhi)"
  unfolding find_longest_match_def
  by (intro extend_right_in_window extend_left_in_window scan_in_window)

lemma find_longest_match_bounds:
  assumes "find_longest_match a b alo ahi blo bhi = (i, j, k)" "\<not> ahi < alo" "\<not> bhi < blo"
  shows "alo \<le> i \<and> i + k \<le> ahi \<and> blo \<le> j \<and> j + k \<le> bhi"
  using find_longest_match_in_window [of alo ahi blo bhi a b] assms
  by (simp add: in_window_def)

text \<open>
  The total size of the blocks of \<open>get_matching_blocks\<close>: the longest block of the
  window, then the blocks of the windows on its left and on its right.
\<close>

function matches :: "string \<Rightarrow> string \<Rightarrow> nat \<Rightarrow> nat \<Rightarrow> nat \<Rightarrow> nat \<Rightarrow> nat" where
  "matches a b alo ahi blo bhi =
     (if ahi < alo \<or> bhi < blo then 0
      else case find_longest_match a b alo ahi blo bhi of
        (i, j, k) \<Rightarrow>
          if k = 0 then 0
          else k + (if alo < i \<and> blo < j then matches a b alo i blo j else 0)
                 + (if i + k < ahi \<and> j + k < bhi then matches a b (i + k) ahi (j + k) bhi else 0))"
  by pat_completeness auto
termination
proof (relation "measure (\<lambda>(a, b, alo, ahi, blo, bhi). ahi - alo)", goal_cases)
  case 1
  then show ?case by simp
next
  case (2 a b alo ahi blo bhi i jk j k)
  have f: "find_longest_match a b alo ahi blo bhi = (i, j, k)"
    by (simp only: "2"(2) [symmetric] "2"(3) [symmetric])
  have "\<not> ahi < alo" "\<not> bhi < blo" using "2"(1) by blast+
  then have "alo \<le> i \<and> i + k \<le> ahi \<and> blo \<le> j \<and> j + k \<le> bhi"
    by (rule find_longest_match_bounds [OF f])
  moreover have "k \<noteq> 0" "alo < i" using "2"(4,5) by blast+
  ultimately have "i - alo < ahi - alo" by linarith
  then show ?case by simp
next
  case (3 a b alo ahi blo bhi i jk j k)
  have f: "find_longest_match a b alo ahi blo bhi = (i, j, k)"
    by (simp only: "3"(2) [symmetric] "3"(3) [symmetric])
  have "\<not> ahi < alo" "\<not> bhi < blo" using "3"(1) by blast+
  then have "alo \<le> i \<and> i + k \<le> ahi \<and> blo \<le> j \<and> j + k \<le> bhi"
    by (rule find_longest_match_bounds [OF f])
  moreover have "k \<noteq> 0" "i + k < ahi" using "3"(4,5) by blast+
  ultimately have "ahi - (i + k) < ahi - alo" by linarith
  then show ?case by simp
qed

declare matches.simps [simp del]

text \<open>
  A Python float is modelled by the real number it denotes. Every float operation rounds
  its exact result to a float; the rounding \<open>rnd\<close> is a parameter of the model, and
  \<open>\<lambda>x. x\<close> is arithmetic without rounding. \<open>ratio\<close> is \<open>2.0 * matches / length\<close>, or
  \<open>1.0\<close> when both sequences are empty.
\<close>

definition ratio :: "(real \<Rightarrow> real) \<Rightarrow> string \<Rightarrow> string \<Rightarrow> real" where
  "ratio rnd a b =
     (let m = matches a b 0 (length a) 0 (length b); n = length a + length b
      in if n \<noteq> 0 then rnd (rnd (2 * real m) / real n) else 1)"

section \<open>Candidate scorer (test.py)\<close>

text \<open>\<open>_similar\<close>; both arguments are strings where it is called.\<close>

definition similar :: "(real \<Rightarrow> real) \<Rightarrow> string \<Rightarrow> string \<Rightarrow> real" where
  "similar rnd a b = ratio rnd (lower a) (lower b)"

text \<open>\<open>" ".join([ac.get("name", "") for ac in r.get("artist-credit", [])])\<close>\<close>

definition artist_names :: "recording \<Rightarrow> string" where
  "artist_names r =
     join '' '' (map (\<lambda>ac. case ac_name ac of None \<Rightarrow> [] | Some n \<Rightarrow> n)
                   (list_or_empty (rec_artist_credit r)))"

text \<open>\<open>r.get("title", "")\<close>\<close>

definition title_of :: "recording \<Rightarrow> string" where
  "title_of r = (case rec_title r of None \<Rightarrow> [] | Some t \<Rightarrow> t)"

text \<open>The score the body of the loop computes for one candidate.\<close>

definition cand_score :: "(real \<Rightarrow> real) \<Rightarrow> string \<Rightarrow> string option \<Rightarrow> recording \<Rightarrow> real" where
  "cand_score rnd title artist r =
     (let rtitle = title_of r;
          score = rnd (0 + rnd (rnd (6 / 10) * similar rnd title rtitle))
      in if truthy artist
         then rnd (score + rnd (rnd (4 / 10) * similar rnd (str_or artist []) (artist_names r)))
         else score)"

text \<open>The loop, with its state \<open>best\<close> and \<open>best_score\<close>.\<close>

fun choose_loop ::
  "(real \<Rightarrow> real) \<Rightarrow> string \<Rightarrow> string option \<Rightarrow> recording list \<Rightarrow> recording option \<Rightarrow> real
     \<Rightarrow> recording option" where
  "choose_loop rnd title artist [] best best_score = best"
| "choose_loop rnd title artist (r # rs) best best_score =
     (let score = cand_score rnd title artist r
      in if best_score < score then choose_loop rnd title artist rs (Some r) score
         else choose_loop rnd title artist rs best best_score)"

record search_result =
  res_recordings :: "recording list option"

definition choose_best_recording ::
  "(real \<Rightarrow> real) \<Rightarrow> search_result \<Rightarrow> string \<Rightarrow> string option \<Rightarrow> recording option" where
  "choose_best_recording rnd results title artist =
     choose_loop rnd title artist (list_or_empty (res_recordings results)) None 0"

text \<open>Example search results.\<close>

definition candidate :: "string \<Rightarrow> string \<Rightarrow> recording" where
  "candidate t a =
     \<lparr>rec_id = None, rec_title = Some t, rec_length = None,
      rec_artist_credit = Some [\<lparr>ac_name = Some a\<rparr>],
      rec_releases = None, rec_relations = None, rec_relation_list = None\<rparr>"

definition example_results :: search_result where
  "example_results =
     \<lparr>res_recordings =
        Some [candidate ''Help'' ''The Beatles'', candidate ''Hello'' ''Adele'',
              candidate ''hello'' ''ADELE'']\<rparr>"

definition unrelated_results :: search_result where
  "unrelated_results = \<lparr>res_recordings = Some [candidate ''b'' ''c'']\<rparr>"

definition no_results :: search_result where
  "no_results = \<lparr>res_recordings = None\<rparr>"



section \<open>Facts about strings\<close>

lemma str_in_iff: "str_in sub s \<longleftrightarrow> (\<exists>pre suf. s = pre @ sub @ suf)"
proof (induction s)
  case Nil
  then show ?case by auto
next
  case (Cons c cs)
  show ?case
  proof
    assume "str_in sub (c # cs)"
    then consider "prefix sub (c # cs)" | "str_in sub cs" by auto
    then show "\<exists>pre suf. c # cs = pre @ sub @ suf"
    proof cases
      case 1
      then obtain suf where "c # cs = sub @ suf" by (auto simp: prefix_def)
      then have "c # cs = [] @ sub @ suf" by simp
      then show ?thesis by blast
    next
      case 2
      with Cons obtain pre suf where "cs = pre @ sub @ suf" by blast
      then have "c # cs = (c # pre) @ sub @ suf" by simp
      then show ?thesis by blast
    qed
  next
    assume "\<exists>pre suf. c # cs = pre @ sub @ suf"
    then obtain pre suf where e: "c # cs = pre @ sub @ suf" by blast
    show "str_in sub (c # cs)"
    proof (cases pre)
      case Nil
      with e have "prefix sub (c # cs)" by (simp add: prefix_def)
      then show ?thesis by simp
    next
      case (Cons a pre')
      with e have "cs = pre' @ sub @ suf" by simp
      with Cons.IH have "str_in sub cs" by blast
      then show ?thesis by simp
    qed
  qed
qed

lemma rstrip_suffix: "\<exists>suf. s = rstrip s @ suf"
proof -
  have "s = rstrip s @ rev (takeWhile is_space (rev s))"
    unfolding rstrip_def by (metis rev_append rev_rev_ident takeWhile_dropWhile_id)
  then show ?thesis by blast
qed

lemma lstrip_prefix: "\<exists>pre. s = pre @ lstrip s"
proof -
  have "s = takeWhile is_space s @ lstrip s" by (simp add: lstrip_def)
  then show ?thesis by blast
qed

lemma str_in_strip: "str_in (strip s) s"
proof -
  obtain pre where p: "s = pre @ lstrip s" using lstrip_prefix by blast
  obtain suf where q: "lstrip s = rstrip (lstrip s) @ suf" using rstrip_suffix by blast
  have "s = pre @ strip s @ suf" using p q by (simp add: strip_def)
  then show ?thesis unfolding str_in_iff by blast
qed

lemma dropWhile_id_if: "xs = [] \<or> \<not> P (hd xs) \<Longrightarrow> dropWhile P xs = xs"
  by (cases xs) auto

lemma lstrip_head: "lstrip s = [] \<or> \<not> is_space (hd (lstrip s))"
  unfolding lstrip_def using hd_dropWhile [of is_space s] by blast

lemma rstrip_last: "rstrip s = [] \<or> \<not> is_space (last (rstrip s))"
proof (cases "rstrip s = []")
  case True then show ?thesis by simp
next
  case False
  then have ne: "dropWhile is_space (rev s) \<noteq> []" by (simp add: rstrip_def)
  have "last (rstrip s) = hd (dropWhile is_space (rev s))"
    unfolding rstrip_def using ne by (simp add: last_rev)
  then show ?thesis using hd_dropWhile [OF ne] by simp
qed

lemma rstrip_id_if: "s = [] \<or> \<not> is_space (last s) \<Longrightarrow> rstrip s = s"
proof -
  assume a: "s = [] \<or> \<not> is_space (last s)"
  have "rev s = [] \<or> \<not> is_space (hd (rev s))"
    using a by (cases "s = []") (simp_all add: hd_rev)
  then have "dropWhile is_space (rev s) = rev s" by (rule dropWhile_id_if)
  then show ?thesis by (simp add: rstrip_def)
qed

lemma rstrip_keeps_head: "s = [] \<or> \<not> is_space (hd s) \<Longrightarrow> rstrip s = [] \<or> \<not> is_space (hd (rstrip s))"
proof (cases "rstrip s = []")
  case True then show ?thesis by simp
next
  case False
  assume a: "s = [] \<or> \<not> is_space (hd s)"
  obtain suf where e: "s = rstrip s @ suf" using rstrip_suffix by blast
  from False e have "hd s = hd (rstrip s)" by (metis hd_append2)
  moreover from False e have "s \<noteq> []" by auto
  ultimately show ?thesis using a by simp
qed

lemma strip_trimmed:
  "strip s = [] \<or> (\<not> is_space (hd (strip s)) \<and> \<not> is_space (last (strip s)))"
  unfolding strip_def
  using rstrip_keeps_head [OF lstrip_head [of s]] rstrip_last [of "lstrip s"] by blast

lemma strip_idem: "strip (strip s) = strip s"
proof -
  let ?t = "strip s"
  have h: "?t = [] \<or> \<not> is_space (hd ?t)" and l: "?t = [] \<or> \<not> is_space (last ?t)"
    using strip_trimmed [of s] by blast+
  have "lstrip ?t = ?t" unfolding lstrip_def using h by (rule dropWhile_id_if)
  moreover have "rstrip ?t = ?t" using l by (rule rstrip_id_if)
  ultimately show ?thesis by (simp add: strip_def [of "strip s"])
qed

lemma exact_pass_iff:
  "exact_pass aq ps \<longleftrightarrow> (\<exists>p\<in>set ps. p \<noteq> [] \<and> strip (lower p) = aq)"
  by (induction ps) auto

lemma substring_pass_iff:
  "substring_pass aq ps \<longleftrightarrow> (\<exists>p\<in>set ps. p \<noteq> [] \<and> str_in aq (lower p))"
  by (induction ps) auto

lemma exact_imp_substring: "exact_pass aq ps \<Longrightarrow> substring_pass aq ps"
  unfolding exact_pass_iff substring_pass_iff using str_in_strip by blast

lemma producers_empty_if_info_empty: "info_is_empty i \<Longrightarrow> producers_of i = []"
  by (simp add: info_is_empty_def producers_of_def)

section \<open>Properties of the query parser\<close>

lemma rmatch_needs:
  "rmatch ps s caps = Some r \<Longrightarrow> (a, One, g) \<in> set ps \<Longrightarrow> \<exists>x\<in>set s. atom_ok a x"
  by (induction ps s caps rule: rmatch.induct) (auto split: if_splits option.splits)

lemma search_needs:
  "search ps s = Some r \<Longrightarrow> (a, One, g) \<in> set ps \<Longrightarrow> \<exists>x\<in>set s. atom_ok a x"
proof (induction ps s rule: search.induct)
  case (1 ps)
  then show ?case using rmatch_needs [of ps "[]" "([], [])" r a g] by simp
next
  case (2 ps c cs)
  show ?case
  proof (cases "rmatch ps (c # cs) ([], [])")
    case None
    with 2 have "\<exists>x\<in>set cs. atom_ok a x" by simp
    then show ?thesis by auto
  next
    case (Some m)
    with 2 have "rmatch ps (c # cs) ([], []) = Some r" by simp
    then show ?thesis using rmatch_needs "2.prems"(2) by blast
  qed
qed

lemma b_in_patterns: "p \<in> set patterns \<Longrightarrow> (Lit CHR ''b'', One, NoGroup) \<in> set p"
  by (auto simp: patterns_def lit_def spaces_def quoted_title_by_artist_def)

lemma first_match_needs:
  "first_match qs s = Some r \<Longrightarrow> \<forall>p\<in>set qs. (a, One, g) \<in> set p \<Longrightarrow> \<exists>x\<in>set s. atom_ok a x"
proof (induction qs s rule: first_match.induct)
  case (1 t)
  then show ?case by simp
next
  case (2 p ps t)
  show ?case
  proof (cases "search p t")
    case None
    with 2 show ?thesis by simp
  next
    case (Some m)
    with 2 have "search p t = Some r" by simp
    moreover have "(a, One, g) \<in> set p" using "2.prems"(2) by simp
    ultimately show ?thesis by (rule search_needs)
  qed
qed

lemma space_lower: "is_space c \<Longrightarrow> lower_char c = c"
  by (auto simp: is_space_def lower_char_def Let_def)

lemma space_not_b: "is_space c \<Longrightarrow> lower_char c \<noteq> CHR ''b''"
proof -
  assume a: "is_space c"
  then have "c \<noteq> CHR ''b''" by (auto simp: is_space_def)
  with space_lower [OF a] show ?thesis by simp
qed

lemma blank_no_match: "is_blank s \<Longrightarrow> first_match patterns s = None"
proof (rule ccontr)
  assume b: "is_blank s" and "first_match patterns s \<noteq> None"
  then obtain r where "first_match patterns s = Some r" by auto
  then have "\<exists>x\<in>set s. atom_ok (Lit CHR ''b'') x"
    using first_match_needs [of patterns s r "Lit CHR ''b''" NoGroup] b_in_patterns by blast
  then obtain x where "x \<in> set s" "lower_char x = lower_char CHR ''b''" by auto
  moreover have "lower_char CHR ''b'' = CHR ''b''" by code_simp
  ultimately show False using b space_not_b by (auto simp: is_blank_def list_all_iff)
qed

lemma str_in_set: "str_in sub s \<Longrightarrow> set sub \<subseteq> set s"
  unfolding str_in_iff by auto

lemma blank_no_by: "is_blank s \<Longrightarrow> \<not> str_in '' by '' (lower s)"
proof
  assume b: "is_blank s" and "str_in '' by '' (lower s)"
  then have "CHR ''b'' \<in> set (lower s)" using str_in_set by fastforce
  then obtain x where "x \<in> set s" "lower_char x = CHR ''b''" by (auto simp: lower_def)
  then show False using b space_not_b by (auto simp: is_blank_def list_all_iff)
qed

lemma strip_blank: "is_blank s \<Longrightarrow> strip s = []"
proof -
  assume "is_blank s"
  then have "lstrip s = []" by (simp add: is_blank_def list_all_iff lstrip_def)
  then show ?thesis by (simp add: strip_def rstrip_def)
qed

lemma parse_query_blank:
  "is_blank s \<Longrightarrow> parse_query s = Inr \<lparr>qh_title = [], qh_artist = None\<rparr>"
  by (simp add: parse_query_def blank_no_match blank_no_by strip_blank)

lemma parse_query_trimmed:
  "parse_query s = Inr h \<Longrightarrow> strip (qh_title h) = qh_title h"
  by (auto simp: parse_query_def Let_def strip_idem split: option.splits if_splits sum.splits)

lemma strip_empty_iff: "strip s = [] \<longleftrightarrow> is_blank s"
proof
  assume e: "strip s = []"
  then have "dropWhile is_space (rev (lstrip s)) = []" by (simp add: strip_def rstrip_def)
  then have "\<forall>x\<in>set (lstrip s). is_space x" by (simp add: dropWhile_eq_Nil_conv)
  with lstrip_head [of s] have "lstrip s = []" by (cases "lstrip s") auto
  then show "is_blank s"
    by (simp add: lstrip_def dropWhile_eq_Nil_conv is_blank_def list_all_iff)
next
  assume "is_blank s"
  then show "strip s = []" by (rule strip_blank)
qed

lemma has_separator_append: "has_separator s \<Longrightarrow> has_separator (pre @ s)"
  by (induction pre) auto

lemma has_separator_suffix: "suffix s' s \<Longrightarrow> has_separator s' \<Longrightarrow> has_separator s"
  by (auto simp: suffix_def has_separator_append)

lemma rmatch_tail:
  "rmatch ps s caps = Some r \<Longrightarrow> ps \<noteq> [] \<Longrightarrow>
   \<exists>s' caps'. suffix s' s \<and> rmatch (tl ps) s' caps' = Some r"
proof (induction ps s caps rule: rmatch.induct)
  case (3 a g ps c cs caps)
  then have "rmatch ps cs (capture g c caps) = Some r" by (simp split: if_splits)
  then show ?case by (metis list.sel(3) suffix_ConsI suffix_order.refl)
next
  case (5 a g ps c cs caps)
  then consider "rmatch ps cs (capture g c caps) = Some r" | "rmatch ps (c # cs) caps = Some r"
    by (auto split: if_splits option.splits)
  then show ?case
  proof cases
    case 1
    then show ?thesis by (metis list.sel(3) suffix_ConsI suffix_order.refl)
  next
    case 2
    then show ?thesis by (metis list.sel(3) suffix_order.refl)
  qed
next
  case (7 a lz g ps c cs caps)
  then have ok: "atom_ok a c" and m: "rmatch ((a, Star lz, g) # ps) cs (capture g c caps) = Some r"
    by (auto split: if_splits)
  from "7.IH" [OF ok m] obtain s' caps' where "suffix s' cs" "rmatch ps s' caps' = Some r"
    by auto
  then show ?case by (metis list.sel(3) suffix_ConsI)
next
  case (9 a lz g ps c cs caps)
  then consider (skip) "rmatch ps (c # cs) caps = Some r"
    | (take) "atom_ok a c" "rmatch ((a, Star lz, g) # ps) cs (capture g c caps) = Some r"
      "lz \<longrightarrow> rmatch ps (c # cs) caps = None"
    by (auto split: if_splits option.splits)
  then show ?case
  proof cases
    case skip
    then show ?thesis by (metis list.sel(3) suffix_order.refl)
  next
    case take
    have "\<exists>s' caps'. suffix s' cs \<and> rmatch ps s' caps' = Some r"
      using "9.IH" take by (cases lz) auto
    then show ?thesis by (metis list.sel(3) suffix_ConsI)
  qed
qed (auto intro: suffix_order.refl)

lemma rmatch_drop_prefix:
  "rmatch (pre @ ps) s caps = Some r \<Longrightarrow>
   \<exists>s' caps'. suffix s' s \<and> rmatch ps s' caps' = Some r"
proof (induction pre arbitrary: s caps)
  case Nil
  then have "rmatch ps s caps = Some r" by simp
  then show ?case using suffix_order.refl by blast
next
  case (Cons p pre)
  then obtain s1 caps1 where 1: "suffix s1 s" "rmatch (pre @ ps) s1 caps1 = Some r"
    using rmatch_tail [of "(p # pre) @ ps" s caps r] by auto
  from Cons.IH [OF 1(2)] obtain s2 caps2 where 2: "suffix s2 s1" "rmatch ps s2 caps2 = Some r"
    by blast
  from 1(1) 2(1) have "suffix s2 s" by (rule suffix_order.trans [rotated])
  with 2(2) show ?case by blast
qed

lemma lower_b: "lower_char CHR ''b'' = CHR ''b''" and lower_y: "lower_char CHR ''y'' = CHR ''y''"
  by code_simp+

text \<open>The pieces every pattern ends with: \<open>\s+by\s+(?P<artist>.+)\<close>.\<close>

lemma rmatch_by:
  assumes "rmatch ((Lit CHR ''b'', One, g1) # (Lit CHR ''y'', One, g2) # (Space, Plus lz, g3) # rest)
             s caps = Some r"
  shows "by_here s"
proof -
  obtain b s1 where s: "s = b # s1" using assms by (cases s) auto
  obtain y s2 where s1: "s1 = y # s2" using assms s by (cases s1) (auto split: if_splits)
  obtain v s3 where s2: "s2 = v # s3" using assms s s1 by (cases s2) (auto split: if_splits)
  show ?thesis using assms unfolding s s1 s2 by (auto simp: lower_b lower_y split: if_splits)
qed

lemma rmatch_spaces_by:
  assumes "rmatch ((Space, Star lz, g) # (Lit CHR ''b'', One, g1) # (Lit CHR ''y'', One, g2)
                     # (Space, Plus lz', g3) # rest) s caps = Some r"
  shows "by_here s \<or> has_separator s"
  using assms
proof (induction s arbitrary: caps)
  case Nil
  then show ?case by simp
next
  case (Cons c cs)
  let ?tail = "(Lit CHR ''b'', One, g1) # (Lit CHR ''y'', One, g2) # (Space, Plus lz', g3) # rest"
  from Cons.prems consider (skip) "rmatch ?tail (c # cs) caps = Some r"
    | (take) "is_space c" "rmatch ((Space, Star lz, g) # ?tail) cs (capture g c caps) = Some r"
    by (auto split: if_splits option.splits)
  then show ?case
  proof cases
    case skip
    then show ?thesis using rmatch_by by blast
  next
    case take
    from Cons.IH [OF take(2)] have "by_here cs \<or> has_separator cs" .
    then show ?thesis using take(1) by auto
  qed
qed

lemma rmatch_separator:
  assumes "rmatch ((Space, Plus lz, g) # (Lit CHR ''b'', One, g1) # (Lit CHR ''y'', One, g2)
                     # (Space, Plus lz', g3) # rest) s caps = Some r"
  shows "has_separator s"
proof -
  obtain c cs where s: "s = c # cs" using assms by (cases s) auto
  have sp: "is_space c" using assms s by (auto split: if_splits)
  have "rmatch ((Space, Star lz, g) # (Lit CHR ''b'', One, g1) # (Lit CHR ''y'', One, g2)
                  # (Space, Plus lz', g3) # rest) cs (capture g c caps) = Some r"
    using assms s by (auto split: if_splits)
  then have "by_here cs \<or> has_separator cs" by (rule rmatch_spaces_by)
  then show ?thesis using sp s by auto
qed

lemma patterns_end:
  "p \<in> set patterns \<Longrightarrow>
   \<exists>pre. p = pre @ (Space, Plus False, NoGroup) # (Lit CHR ''b'', One, NoGroup)
                # (Lit CHR ''y'', One, NoGroup) # (Space, Plus False, NoGroup)
                # [(AnyChar, Plus False, GArtist)]"
proof -
  let ?core = "(Space, Plus False, NoGroup) # (Lit CHR ''b'', One, NoGroup)
                # (Lit CHR ''y'', One, NoGroup) # (Space, Plus False, NoGroup)
                # [(AnyChar, Plus False, GArtist)]"
  have q: "quoted_title_by_artist =
             [(Quote, Opt, NoGroup), (AnyChar, Plus True, GTitle), (Quote, Opt, NoGroup)] @ ?core"
    by (simp add: quoted_title_by_artist_def spaces_def lit_def)
  have 4: "[(AnyChar, Plus True, GTitle)] @ spaces @ lit ''by'' @ spaces
             @ [(AnyChar, Plus False, GArtist)] = [(AnyChar, Plus True, GTitle)] @ ?core"
    by (simp add: spaces_def lit_def)
  assume "p \<in> set patterns"
  then consider "p = (lit ''tell me about'' @ spaces
                       @ [(Quote, Opt, NoGroup), (AnyChar, Plus True, GTitle), (Quote, Opt, NoGroup)]) @ ?core"
    | "p = (lit ''about'' @ spaces
              @ [(Quote, Opt, NoGroup), (AnyChar, Plus True, GTitle), (Quote, Opt, NoGroup)]) @ ?core"
    | "p = (lit ''what can you tell me about'' @ spaces
              @ [(Quote, Opt, NoGroup), (AnyChar, Plus True, GTitle), (Quote, Opt, NoGroup)]) @ ?core"
    | "p = [(AnyChar, Plus True, GTitle)] @ ?core"
    unfolding patterns_def q 4 by auto
  then show ?thesis by cases blast+
qed

lemma rmatch_pattern_separator:
  assumes "p \<in> set patterns" "rmatch p s caps = Some r"
  shows "has_separator s"
proof -
  from patterns_end [OF assms(1)] obtain pre where
    p: "p = pre @ (Space, Plus False, NoGroup) # (Lit CHR ''b'', One, NoGroup)
                # (Lit CHR ''y'', One, NoGroup) # (Space, Plus False, NoGroup)
                # [(AnyChar, Plus False, GArtist)]" by blast
  from assms(2) obtain s' caps' where "suffix s' s"
    "rmatch ((Space, Plus False, NoGroup) # (Lit CHR ''b'', One, NoGroup)
                # (Lit CHR ''y'', One, NoGroup) # (Space, Plus False, NoGroup)
                # [(AnyChar, Plus False, GArtist)]) s' caps' = Some r"
    unfolding p using rmatch_drop_prefix by blast
  then show ?thesis using rmatch_separator has_separator_suffix by blast
qed

lemma search_separator:
  "p \<in> set patterns \<Longrightarrow> search p s = Some r \<Longrightarrow> has_separator s"
proof (induction p s rule: search.induct)
  case (1 ps)
  then show ?case using rmatch_pattern_separator [of ps "[]" "([], [])" r] by simp
next
  case (2 ps c cs)
  show ?case
  proof (cases "rmatch ps (c # cs) ([], [])")
    case None
    with 2 have "has_separator cs" by simp
    then show ?thesis by simp
  next
    case (Some m)
    with 2 have "rmatch ps (c # cs) ([], []) = Some r" by simp
    then show ?thesis using rmatch_pattern_separator "2.prems"(1) by blast
  qed
qed

lemma first_match_separator:
  "set qs \<subseteq> set patterns \<Longrightarrow> first_match qs s = Some r \<Longrightarrow> has_separator s"
proof (induction qs s rule: first_match.induct)
  case (1 t)
  then show ?case by simp
next
  case (2 p ps t)
  show ?case
  proof (cases "search p t")
    case None
    with 2 show ?thesis by simp
  next
    case (Some m)
    with 2 have "search p t = Some r" by simp
    moreover have "p \<in> set patterns" using "2.prems"(1) by simp
    ultimately show ?thesis by (rule search_separator [rotated])
  qed
qed

lemma lower_space: "lower_char c = CHR '' '' \<Longrightarrow> is_space c"
proof -
  assume a: "lower_char c = CHR '' ''"
  let ?n = "of_char c :: nat"
  have n: "?n < 256" by simp
  show ?thesis
  proof (cases "(65 \<le> ?n \<and> ?n \<le> 90) \<or> (192 \<le> ?n \<and> ?n \<le> 222 \<and> ?n \<noteq> 215)")
    case True
    then have "lower_char c = char_of (?n + 32)" by (simp add: lower_char_def Let_def)
    with a have "of_char (char_of (?n + 32) :: char) = (of_char (CHR '' '') :: nat)" by simp
    then have "(?n + 32) mod 256 = 32" by simp
    with True show ?thesis by auto
  next
    case False
    then have "lower_char c = c" by (auto simp: lower_char_def Let_def)
    with a show ?thesis by (simp add: is_space_def)
  qed
qed

lemma by_in_lower_separator: "str_in '' by '' (lower s) \<Longrightarrow> has_separator s"
proof (induction s)
  case Nil
  then show ?case by (simp add: lower_def)
next
  case (Cons c cs)
  from Cons.prems consider (here) "prefix '' by '' (lower (c # cs))" | (later) "str_in '' by '' (lower cs)"
    by (auto simp: lower_def)
  then show ?case
  proof cases
    case here
    then have c: "lower_char c = CHR '' ''" and p: "prefix ''by '' (lower cs)"
      by (auto simp: lower_def)
    from p obtain b y v rest where cs: "cs = b # y # v # rest"
      and l: "lower_char b = CHR ''b''" "lower_char y = CHR ''y''" "lower_char v = CHR '' ''"
      by (cases cs; cases "tl cs"; cases "tl (tl cs)") (auto simp: lower_def)
    show ?thesis using c l lower_space unfolding cs by simp
  next
    case later
    then show ?thesis using Cons.IH by simp
  qed
qed

lemma no_separator_fallback:
  assumes "\<not> has_separator s"
  shows "parse_query s = Inr \<lparr>qh_title = strip s, qh_artist = None\<rparr>"
proof -
  have "first_match patterns s = None"
    using first_match_separator [of patterns s] assms by (cases "first_match patterns s") auto
  moreover have "\<not> str_in '' by '' (lower s)" using by_in_lower_separator assms by blast
  ultimately show ?thesis by (simp add: parse_query_def)
qed

text \<open>
  C2 (as amended). Whenever \<open>parse_query\<close> returns a hypothesis, its title is a trimmed
  string. On empty or whitespace-only text it returns the empty title and no artist. On
  every text without a separator (a whitespace character, the letters b and y in either
  case, a whitespace character) it returns the trimmed text as the title and no artist,
  and that title is empty only when the text is blank. Only on text with a separator can
  the title be empty although the text is not blank.
\<close>

theorem parse_query_title:
  "(\<forall>h. parse_query s = Inr h \<longrightarrow> strip (qh_title h) = qh_title h) \<and>
   (is_blank s \<longrightarrow> parse_query s = Inr \<lparr>qh_title = [], qh_artist = None\<rparr>) \<and>
   (\<not> has_separator s \<longrightarrow>
      parse_query s = Inr \<lparr>qh_title = strip s, qh_artist = None\<rparr> \<and>
      (strip s = [] \<longleftrightarrow> is_blank s))"
proof (intro conjI allI impI)
  fix h assume "parse_query s = Inr h"
  then show "strip (qh_title h) = qh_title h" by (rule parse_query_trimmed)
next
  assume "is_blank s"
  then show "parse_query s = Inr \<lparr>qh_title = [], qh_artist = None\<rparr>"
    by (rule parse_query_blank)
next
  assume "\<not> has_separator s"
  then show "parse_query s = Inr \<lparr>qh_title = strip s, qh_artist = None\<rparr>"
    by (rule no_separator_fallback)
next
  show "strip s = [] \<longleftrightarrow> is_blank s" by (rule strip_empty_iff)
qed

theorem parse_query_title_witness:
  "is_blank ''  '' \<and>
   parse_query ''  '' = Inr \<lparr>qh_title = [], qh_artist = None\<rparr> \<and>
   strip (qh_title \<lparr>qh_title = [], qh_artist = None\<rparr>) = [] \<and>
   \<not> has_separator '' Bohemian Rhapsody '' \<and>
   parse_query '' Bohemian Rhapsody ''
     = Inr \<lparr>qh_title = ''Bohemian Rhapsody'', qh_artist = None\<rparr> \<and>
   \<not> is_blank '' Bohemian Rhapsody ''"
proof -
  have b: "is_blank ''  ''" by code_simp
  have p: "parse_query ''  '' = Inr \<lparr>qh_title = [], qh_artist = None\<rparr>"
    using parse_query_title [of "''  ''"] b by blast
  have t: "strip (qh_title \<lparr>qh_title = [], qh_artist = None\<rparr>)
             = qh_title \<lparr>qh_title = [], qh_artist = None\<rparr>"
    using parse_query_title [of "''  ''"] p by blast
  have ns: "\<not> has_separator '' Bohemian Rhapsody ''" by code_simp
  then have q: "parse_query '' Bohemian Rhapsody ''
                  = Inr \<lparr>qh_title = strip '' Bohemian Rhapsody '', qh_artist = None\<rparr>"
      and e: "strip '' Bohemian Rhapsody '' = [] \<longleftrightarrow> is_blank '' Bohemian Rhapsody ''"
    using parse_query_title [of "'' Bohemian Rhapsody ''"] by blast+
  have v: "strip '' Bohemian Rhapsody '' = ''Bohemian Rhapsody''" by code_simp
  then have "\<not> is_blank '' Bohemian Rhapsody ''" using e by simp
  then show ?thesis using b p t ns q v by simp
qed

text \<open>
  The claim as first stated fails on text that starts with the separator: the text is
  not blank, and the title returned is empty.
\<close>

theorem parse_query_empty_title_counterexample:
  "\<not> is_blank '' by x'' \<and>
   parse_query '' by x'' = Inr \<lparr>qh_title = [], qh_artist = Some ''x''\<rparr>"
  by code_simp

text \<open>
  C10. \<open>parse_query\<close> raises on text that holds the separator in upper case only where no
  pattern matches: the test finds the separator in the lowercased text, the split does
  not find it in the text, and \<open>parts[1]\<close> is out of range.
\<close>

theorem parse_query_raises_index_error:
  "str_in '' by '' (lower '' BY x'') \<and> split1 '' by '' '' BY x'' = ['' BY x''] \<and>
   parse_query '' BY x'' = Inl IndexError"
  by code_simp

section \<open>Properties of the credit normalizer\<close>

lemma initial_credits_dict: "initial_credits = credits_dict [] [] [] []"
  by (simp add: initial_credits_def credits_dict_def)

lemma dom_credits_dict:
  "dom (credits_dict a b c d) = {''composer'', ''lyricist'', ''producer'', ''performer''}"
  by (auto simp: credits_dict_def)

lemma append_composer:
  "append_credit ''composer'' n (credits_dict a b c d) = Inr (credits_dict (a @ [n]) b c d)"
  by (auto simp: append_credit_def credits_dict_def fun_eq_iff)

lemma append_lyricist:
  "append_credit ''lyricist'' n (credits_dict a b c d) = Inr (credits_dict a (b @ [n]) c d)"
  by (auto simp: append_credit_def credits_dict_def fun_eq_iff)

lemma append_producer:
  "append_credit ''producer'' n (credits_dict a b c d) = Inr (credits_dict a b (c @ [n]) d)"
  by (auto simp: append_credit_def credits_dict_def fun_eq_iff)

lemma append_performer:
  "append_credit ''performer'' n (credits_dict a b c d) = Inr (credits_dict a b c (d @ [n]))"
  by (auto simp: append_credit_def credits_dict_def fun_eq_iff)

lemma classify_dict:
  "classify rel (credits_dict a b c d) =
     Inr (credits_dict (a @ credited ''composer'' [rel]) (b @ credited ''lyricist'' [rel])
            (c @ credited ''producer'' [rel]) (d @ credited ''performer'' [rel]))"
  by (simp add: classify_def Let_def on_ok_def credited_def
        append_composer append_lyricist append_producer append_performer)

lemma credited_Cons: "credited role (rel # rels) = credited role [rel] @ credited role rels"
  by (simp add: credited_def)

lemma credit_loop_dict:
  "credit_loop rels (credits_dict a b c d) =
     Inr (credits_dict (a @ credited ''composer'' rels) (b @ credited ''lyricist'' rels)
            (c @ credited ''producer'' rels) (d @ credited ''performer'' rels))"
proof (induction rels arbitrary: a b c d)
  case Nil
  then show ?case by (simp add: credited_def)
next
  case (Cons rel rels)
  show ?case
    by (simp only: credit_loop.simps classify_dict sum.case Cons.IH append_assoc
          credited_Cons [of _ rel rels])
qed

lemma hd_sort_key_min:
  assumes "xs \<noteq> []"
  shows "hd (sort_key f xs) \<in> set xs \<and> (\<forall>x\<in>set xs. f (hd (sort_key f xs)) \<le> f x)"
proof -
  let ?ys = "sort_key f xs"
  have ne: "?ys \<noteq> []" using assms by (metis length_0_conv length_sort)
  have s: "sorted (map f ?ys)" by (rule sorted_sort_key)
  have st: "set ?ys = set xs" by simp
  obtain y ys' where e: "?ys = y # ys'" using ne by (cases ?ys) auto
  have "\<forall>x\<in>set ?ys. f y \<le> f x" using s unfolding e by auto
  then show ?thesis using st e by (metis list.sel(1) list.set_intros(1))
qed

lemma py_index_0: "xs \<noteq> [] \<Longrightarrow> py_index xs 0 = Inr (hd xs)"
  by (cases xs) (simp_all add: py_index_def)

lemma sort_key_nonempty: "xs \<noteq> [] \<Longrightarrow> sort_key f xs \<noteq> []"
  by (metis length_0_conv length_sort)

lemma extract_credits_eq:
  "extract_credits rj =
     Inr \<lparr>info_title = rec_title rj,
          info_length_ms = rec_length rj,
          info_artists = Some (artists_of rj),
          info_release_title =
            (if list_or_empty (rec_releases rj) \<noteq> []
             then rl_title (hd (sort_key release_key (list_or_empty (rec_releases rj)))) else None),
          info_release_date =
            (if list_or_empty (rec_releases rj) \<noteq> []
             then rl_date (hd (sort_key release_key (list_or_empty (rec_releases rj)))) else None),
          info_credits =
            Some (credits_dict (credited ''composer'' (relations_of rj))
                    (credited ''lyricist'' (relations_of rj))
                    (credited ''producer'' (relations_of rj))
                    (credited ''performer'' (relations_of rj))),
          info_mbid = None\<rparr>"
  by (simp add: extract_credits_def Let_def on_ok_def py_index_0 sort_key_nonempty
        initial_credits_dict credit_loop_dict)

lemma artists_no_empty: "[] \<notin> set (artists_of rj)"
  by (auto simp: artists_of_def List.map_filter_def split: if_splits)

lemma pointwise_le:
  fixes d s :: "'a::linorder list"
  shows "length d \<le> length s \<Longrightarrow> \<forall>i<length d. d ! i \<le> s ! i \<Longrightarrow> d \<le> s"
proof (induction d arbitrary: s)
  case Nil
  then show ?case by simp
next
  case (Cons x xs)
  then obtain y ys where s: "s = y # ys" by (cases s) auto
  have xy: "x \<le> y" using Cons.prems(2) s by fastforce
  have "\<forall>i<length xs. xs ! i \<le> ys ! i" using Cons.prems(2) s by fastforce
  moreover have "length xs \<le> length ys" using Cons.prems(1) s by simp
  ultimately have "xs \<le> ys" by (rule Cons.IH [rotated])
  then show ?case using xy s by auto
qed

lemma sentinel_nth: "i < 10 \<Longrightarrow> ''9999-99-99'' ! i = (if i = 4 \<or> i = 7 then CHR ''-'' else CHR ''9'')"
  by (auto simp: eval_nat_numeral less_Suc_eq)

lemma date_le_sentinel: "date_shaped d \<Longrightarrow> d \<le> ''9999-99-99''"
proof (rule pointwise_le)
  assume a: "date_shaped d"
  then show "length d \<le> length ''9999-99-99''" by (auto simp: date_shaped_def)
  show "\<forall>i<length d. d ! i \<le> ''9999-99-99'' ! i"
  proof (intro allI impI)
    fix i assume i: "i < length d"
    then have "i < 10" using a by (auto simp: date_shaped_def)
    moreover have "if i = 4 \<or> i = 7 then d ! i = CHR ''-'' else is_digit (d ! i)"
      using a i by (simp add: date_shaped_def list_all_iff)
    ultimately show "d ! i \<le> ''9999-99-99'' ! i"
      by (simp only: sentinel_nth) (auto simp: is_digit_def)
  qed
qed

lemma credits_dict_at:
  "role \<in> {''composer'', ''lyricist'', ''producer'', ''performer''} \<Longrightarrow>
   credits_dict (f ''composer'') (f ''lyricist'') (f ''producer'') (f ''performer'') role
     = Some (f role)"
  by (auto simp: credits_dict_def)

text \<open>
  C5. On every raw recording entity \<open>extract_credits\<close> returns a record and raises
  nothing; its credits hold exactly the four keys composer, lyricist, producer and
  performer, each bound to a list; its artists list holds no empty name. When releases
  and both relation keys are absent, the four lists are empty and no release is set.
\<close>

theorem extract_credits_well_formed:
  "\<exists>i cr names.
     extract_credits rj = Inr i \<and> info_credits i = Some cr \<and>
     dom cr = {''composer'', ''lyricist'', ''producer'', ''performer''} \<and>
     info_artists i = Some names \<and> [] \<notin> set names \<and>
     info_length_ms i = rec_length rj \<and>
     (rec_releases rj = None \<and> rec_relations rj = None \<and> rec_relation_list rj = None \<longrightarrow>
        cr = credits_dict [] [] [] [] \<and>
        info_release_title i = None \<and> info_release_date i = None)"
  by (simp add: extract_credits_eq dom_credits_dict artists_no_empty relations_of_def
        credited_def)

theorem extract_credits_well_formed_witness:
  "rec_length bare_recording = None \<and> rec_releases bare_recording = None \<and>
   rec_relations bare_recording = None \<and> rec_relation_list bare_recording = None \<and>
   (\<exists>i. extract_credits bare_recording = Inr i \<and>
        info_credits i = Some (credits_dict [] [] [] []) \<and>
        info_release_title i = None \<and> info_release_date i = None)"
  using extract_credits_well_formed [of bare_recording]
  by (auto simp: bare_recording_def)

text \<open>
  C6 (as amended). The name of a relation comes from the first populated field among the
  nested artist object, the credited-name field and the target field: a non-empty artist
  object decides alone, by its \<open>name\<close> key, and the other two fields are then not
  consulted, even when the object has no name. A relation that gets no name this way is
  skipped and enters no role list; every other relation is appended, in order, to the
  list of every role whose test its type label passes, the four tests being independent.
\<close>

theorem relation_classification:
  "(\<exists>i cr.
      extract_credits rj = Inr i \<and> info_credits i = Some cr \<and>
      (\<forall>role\<in>{''composer'', ''lyricist'', ''producer'', ''performer''}.
         cr role =
           Some (map (\<lambda>rel. str_or (resolve_name rel) [])
                   (filter (\<lambda>rel. truthy (resolve_name rel) \<and> role_test role (type_label rel))
                      (relations_of rj))))) \<and>
   (rel_artist rel = Some obj \<and> obj \<noteq> [] \<longrightarrow> resolve_name rel = map_of obj ''name'') \<and>
   ((rel_artist rel = None \<or> rel_artist rel = Some []) \<and> truthy (rel_target_credit rel) \<longrightarrow>
      resolve_name rel = rel_target_credit rel) \<and>
   ((rel_artist rel = None \<or> rel_artist rel = Some []) \<and> \<not> truthy (rel_target_credit rel) \<longrightarrow>
      resolve_name rel = (if truthy (rel_target rel) then rel_target rel else None))"
proof (intro conjI)
  show "\<exists>i cr.
      extract_credits rj = Inr i \<and> info_credits i = Some cr \<and>
      (\<forall>role\<in>{''composer'', ''lyricist'', ''producer'', ''performer''}.
         cr role =
           Some (map (\<lambda>rel. str_or (resolve_name rel) [])
                   (filter (\<lambda>rel. truthy (resolve_name rel) \<and> role_test role (type_label rel))
                      (relations_of rj))))"
    using credits_dict_at [of _ "\<lambda>role. credited role (relations_of rj)"]
    by (simp add: extract_credits_eq) (simp add: credited_def)
qed (auto simp: resolve_name_def)

theorem relation_classification_witness:
  "(\<exists>i cr. extract_credits example_recording = Inr i \<and> info_credits i = Some cr \<and>
      cr ''composer'' = Some [''Fred''] \<and> cr ''lyricist'' = Some [''Fred''] \<and>
      cr ''producer'' = Some [''Roy''] \<and> cr ''performer'' = Some [''Brian'']) \<and>
   resolve_name nameless_artist_relation = None"
proof -
  have rels: "relations_of example_recording = list_or_empty (rec_relations example_recording)"
    by (simp add: relations_of_def example_recording_def)
  have c: "map (\<lambda>rel. str_or (resolve_name rel) [])
             (filter (\<lambda>rel. truthy (resolve_name rel) \<and> role_test ''composer'' (type_label rel))
                (list_or_empty (rec_relations example_recording))) = [''Fred'']"
    by code_simp
  have l: "map (\<lambda>rel. str_or (resolve_name rel) [])
             (filter (\<lambda>rel. truthy (resolve_name rel) \<and> role_test ''lyricist'' (type_label rel))
                (list_or_empty (rec_relations example_recording))) = [''Fred'']"
    by code_simp
  have p: "map (\<lambda>rel. str_or (resolve_name rel) [])
             (filter (\<lambda>rel. truthy (resolve_name rel) \<and> role_test ''producer'' (type_label rel))
                (list_or_empty (rec_relations example_recording))) = [''Roy'']"
    by code_simp
  have f: "map (\<lambda>rel. str_or (resolve_name rel) [])
             (filter (\<lambda>rel. truthy (resolve_name rel) \<and> role_test ''performer'' (type_label rel))
                (list_or_empty (rec_relations example_recording))) = [''Brian'']"
    by code_simp
  have n: "rel_artist nameless_artist_relation = Some [(''id'', ''a1'')]"
    by (simp add: nameless_artist_relation_def)
  have "resolve_name nameless_artist_relation = map_of [(''id'', ''a1'')] ''name''"
    using relation_classification [of example_recording nameless_artist_relation "[(''id'', ''a1'')]"] n
    by blast
  then have r: "resolve_name nameless_artist_relation = None" by simp
  obtain i cr where e: "extract_credits example_recording = Inr i" "info_credits i = Some cr"
    and a: "\<forall>role\<in>{''composer'', ''lyricist'', ''producer'', ''performer''}.
         cr role =
           Some (map (\<lambda>rel. str_or (resolve_name rel) [])
                   (filter (\<lambda>rel. truthy (resolve_name rel) \<and> role_test role (type_label rel))
                      (relations_of example_recording)))"
    using relation_classification [of example_recording nameless_artist_relation "[(''id'', ''a1'')]"]
    by blast
  have "cr ''composer'' = Some [''Fred'']" using a c unfolding rels by simp
  moreover have "cr ''lyricist'' = Some [''Fred'']" using a l unfolding rels by simp
  moreover have "cr ''producer'' = Some [''Roy'']" using a p unfolding rels by simp
  moreover have "cr ''performer'' = Some [''Brian'']" using a f unfolding rels by simp
  ultimately show ?thesis using e r by blast
qed

text \<open>
  The claim as first stated fails on a relation whose artist object has no name while
  its credited-name field is populated: the name is not taken from the credited-name
  field, and the relation, of type producer, enters no list.
\<close>

theorem relation_classification_counterexample:
  "map_of [(''id'', ''a1'')] ''name'' = None \<and>
   rel_target_credit nameless_artist_relation = Some ''Bob'' \<and>
   role_test ''producer'' (type_label nameless_artist_relation) \<and>
   resolve_name nameless_artist_relation = None \<and>
   map_sum id producers_of
     (extract_credits (bare_recording\<lparr>rec_relations := Some [nameless_artist_relation]\<rparr>)) = Inr []"
  by code_simp

text \<open>
  C7. When the releases list is not empty, the release title and date of the record are
  those of a release whose key is smallest among all releases, the key being the date
  string, or the sentinel 9999-99-99 when the date is missing or empty; a release with
  a date of the catalog's shape never has a larger key than one without a date. When
  the releases list is empty or absent, release title and date are None.
\<close>

theorem release_selection:
  "(\<exists>i. extract_credits rj = Inr i \<and>
      (list_or_empty (rec_releases rj) = [] \<longrightarrow>
         info_release_title i = None \<and> info_release_date i = None) \<and>
      (list_or_empty (rec_releases rj) \<noteq> [] \<longrightarrow>
         (\<exists>r\<in>set (list_or_empty (rec_releases rj)).
            (\<forall>r'\<in>set (list_or_empty (rec_releases rj)). release_key r \<le> release_key r') \<and>
            info_release_title i = rl_title r \<and> info_release_date i = rl_date r))) \<and>
   (\<not> truthy (rl_date undated) \<longrightarrow> release_key undated = ''9999-99-99'') \<and>
   (rl_date dated = Some d \<and> date_shaped d \<and> \<not> truthy (rl_date undated) \<longrightarrow>
      release_key dated = d \<and> release_key dated \<le> release_key undated)"
proof (intro conjI)
  show "\<exists>i. extract_credits rj = Inr i \<and>
      (list_or_empty (rec_releases rj) = [] \<longrightarrow>
         info_release_title i = None \<and> info_release_date i = None) \<and>
      (list_or_empty (rec_releases rj) \<noteq> [] \<longrightarrow>
         (\<exists>r\<in>set (list_or_empty (rec_releases rj)).
            (\<forall>r'\<in>set (list_or_empty (rec_releases rj)). release_key r \<le> release_key r') \<and>
            info_release_title i = rl_title r \<and> info_release_date i = rl_date r))"
    using hd_sort_key_min [of "list_or_empty (rec_releases rj)" release_key]
    by (auto simp: extract_credits_eq)
next
  show "\<not> truthy (rl_date undated) \<longrightarrow> release_key undated = ''9999-99-99''"
    by (cases "rl_date undated") (auto simp: release_key_def)
next
  show "rl_date dated = Some d \<and> date_shaped d \<and> \<not> truthy (rl_date undated) \<longrightarrow>
      release_key dated = d \<and> release_key dated \<le> release_key undated"
  proof (intro impI, elim conjE)
    assume d: "rl_date dated = Some d" and s: "date_shaped d" and u: "\<not> truthy (rl_date undated)"
    have "d \<noteq> []" using s by (auto simp: date_shaped_def)
    then have k: "release_key dated = d" using d by (simp add: release_key_def)
    have "release_key undated = ''9999-99-99''"
      using u by (cases "rl_date undated") (auto simp: release_key_def)
    then show "release_key dated = d \<and> release_key dated \<le> release_key undated"
      using k date_le_sentinel [OF s] by simp
  qed
qed

theorem release_selection_witness:
  "list_or_empty (rec_releases example_recording) \<noteq> [] \<and>
   (\<exists>i. extract_credits example_recording = Inr i \<and>
        info_release_title i = Some ''C'' \<and> info_release_date i = Some ''1975'') \<and>
   \<not> truthy (rl_date \<lparr>rl_title = Some ''A'', rl_date = None\<rparr>) \<and>
   date_shaped ''1975'' \<and>
   release_key \<lparr>rl_title = Some ''C'', rl_date = Some ''1975''\<rparr>
     \<le> release_key \<lparr>rl_title = Some ''A'', rl_date = None\<rparr> \<and>
   list_or_empty (rec_releases bare_recording) = [] \<and>
   (\<exists>i. extract_credits bare_recording = Inr i \<and> info_release_title i = None)"
proof -
  let ?A = "\<lparr>rl_title = Some ''A'', rl_date = None\<rparr>"
  let ?B = "\<lparr>rl_title = Some ''B'', rl_date = Some ''1975-10-31''\<rparr>"
  let ?C = "\<lparr>rl_title = Some ''C'', rl_date = Some ''1975''\<rparr>"
  have rs: "list_or_empty (rec_releases example_recording) = [?A, ?B, ?C]"
    by (simp add: example_recording_def)
  have u: "\<not> truthy (rl_date ?A)" by simp
  have ds: "date_shaped ''1975''" by code_simp
  have kA: "\<not> release_key ?A \<le> release_key ?C" by code_simp
  have kB: "\<not> release_key ?B \<le> release_key ?C" by code_simp
  note t = release_selection [of example_recording ?A ?C "''1975''"]
  have ne: "list_or_empty (rec_releases example_recording) \<noteq> []" using rs by simp
  from t obtain i where i: "extract_credits example_recording = Inr i"
    and m: "list_or_empty (rec_releases example_recording) \<noteq> [] \<longrightarrow>
         (\<exists>r\<in>set (list_or_empty (rec_releases example_recording)).
            (\<forall>r'\<in>set (list_or_empty (rec_releases example_recording)).
               release_key r \<le> release_key r') \<and>
            info_release_title i = rl_title r \<and> info_release_date i = rl_date r)"
    by blast
  from m ne obtain r where r: "r \<in> set (list_or_empty (rec_releases example_recording))"
      "\<forall>r'\<in>set (list_or_empty (rec_releases example_recording)). release_key r \<le> release_key r'"
    and v: "info_release_title i = rl_title r" "info_release_date i = rl_date r"
    by blast
  have "release_key r \<le> release_key ?C" using r(2) unfolding rs by simp
  moreover have "r = ?A \<or> r = ?B \<or> r = ?C" using r(1) unfolding rs by simp
  ultimately have "r = ?C" using kA kB by blast
  with i v have 1: "\<exists>i. extract_credits example_recording = Inr i \<and>
        info_release_title i = Some ''C'' \<and> info_release_date i = Some ''1975''" by auto
  have 2: "release_key ?C \<le> release_key ?A" using t u ds by simp
  have e: "list_or_empty (rec_releases bare_recording) = []" by (simp add: bare_recording_def)
  have 3: "\<exists>i. extract_credits bare_recording = Inr i \<and> info_release_title i = None"
    using release_selection [of bare_recording ?A ?C "''1975''"] e by auto
  show ?thesis using rs u ds 1 2 e 3 by simp
qed

section \<open>Properties of the context builder\<close>















section \<open>Properties of the candidate scorer\<close>

lemma matches_le:
  "matches a b alo ahi blo bhi \<le> ahi - alo \<and> matches a b alo ahi blo bhi \<le> bhi - blo"
proof (induction a b alo ahi blo bhi rule: matches.induct)
  case (1 a b alo ahi blo bhi)
  show ?case
  proof (cases "ahi < alo \<or> bhi < blo")
    case True
    then show ?thesis by (simp add: matches.simps [of a b alo ahi blo bhi])
  next
    case False
    obtain i j k where f: "find_longest_match a b alo ahi blo bhi = (i, j, k)"
      by (cases "find_longest_match a b alo ahi blo bhi") auto
    have w: "alo \<le> i \<and> i + k \<le> ahi \<and> blo \<le> j \<and> j + k \<le> bhi"
      using find_longest_match_bounds [OF f] False by simp
    show ?thesis
    proof (cases "k = 0")
      case True
      then show ?thesis using False f by (simp add: matches.simps [of a b alo ahi blo bhi])
    next
      case k: False
      let ?l = "if alo < i \<and> blo < j then matches a b alo i blo j else 0"
      let ?r = "if i + k < ahi \<and> j + k < bhi then matches a b (i + k) ahi (j + k) bhi else 0"
      have l: "?l \<le> i - alo \<and> ?l \<le> j - blo"
        using "1.IH"(1) [OF False f [symmetric] refl k] by simp
      have r: "?r \<le> ahi - (i + k) \<and> ?r \<le> bhi - (j + k)"
        using "1.IH"(2) [OF False f [symmetric] refl k] by simp
      have "matches a b alo ahi blo bhi = k + ?l + ?r"
        using False f k by (simp add: matches.simps [of a b alo ahi blo bhi])
      then show ?thesis using l r w by linarith
    qed
  qed
qed


lemma ratio_range:
  assumes "mono rnd" "\<forall>n::nat. rnd (real n) = real n"
  shows "0 \<le> ratio rnd a b \<and> ratio rnd a b \<le> 1"
proof (cases "length a + length b = 0")
  case True
  then show ?thesis by (simp add: ratio_def)
next
  case False
  let ?m = "matches a b 0 (length a) 0 (length b)"
  let ?n = "length a + length b"
  have "?m \<le> length a" "?m \<le> length b" using matches_le [of a b 0 "length a" 0 "length b"] by simp_all
  then have le: "2 * ?m \<le> ?n" by linarith
  have r: "rnd (2 * real ?m) = real (2 * ?m)" using assms(2) by (metis of_nat_mult of_nat_numeral)
  have q0: "0 \<le> real (2 * ?m) / real ?n" by simp
  have "0 < ?n" using False by arith
  then have n0: "0 < real ?n" by (simp only: of_nat_0_less_iff)
  have "real (2 * ?m) \<le> real ?n" using le by (simp only: of_nat_le_iff)
  then have "real (2 * ?m) / real ?n \<le> real ?n / real ?n"
    by (rule divide_right_mono) simp
  then have q1: "real (2 * ?m) / real ?n \<le> 1" using n0 by simp
  have "rnd 0 \<le> rnd (real (2 * ?m) / real ?n)" using assms(1) q0 by (rule monoD)
  moreover have "rnd (real (2 * ?m) / real ?n) \<le> rnd 1" using assms(1) q1 by (rule monoD)
  moreover have "rnd 0 = 0" "rnd 1 = 1" using assms(2) by (metis of_nat_0, metis of_nat_1)
  ultimately show ?thesis using False r by (simp add: ratio_def Let_def)
qed

lemma choose_loop_keep:
  "\<forall>r\<in>set rs. cand_score rnd title artist r \<le> bs \<Longrightarrow>
   choose_loop rnd title artist rs best bs = best"
  by (induction rs) (auto simp: Let_def)

lemma choose_loop_pick:
  assumes "\<not> (\<forall>r\<in>set rs. cand_score rnd title artist r \<le> bs)"
  shows "\<exists>k<length rs.
           choose_loop rnd title artist rs best bs = Some (rs ! k) \<and>
           bs < cand_score rnd title artist (rs ! k) \<and>
           (\<forall>j<length rs. cand_score rnd title artist (rs ! j) \<le> cand_score rnd title artist (rs ! k)) \<and>
           (\<forall>j<k. cand_score rnd title artist (rs ! j) < cand_score rnd title artist (rs ! k))"
  using assms
proof (induction rs arbitrary: best bs)
  case Nil
  then show ?case by simp
next
  case (Cons r rs)
  let ?sc = "cand_score rnd title artist"
  show ?case
  proof (cases "bs < ?sc r")
    case True
    show ?thesis
    proof (cases "\<forall>x\<in>set rs. ?sc x \<le> ?sc r")
      case all: True
      have "choose_loop rnd title artist (r # rs) best bs = Some r"
        using True choose_loop_keep [OF all] by (simp add: Let_def)
      moreover have "\<forall>j<length (r # rs). ?sc ((r # rs) ! j) \<le> ?sc r"
        using all by (auto simp: nth_Cons split: nat.splits)
      ultimately show ?thesis using True by (intro exI [of _ 0]) simp
    next
      case False
      from Cons.IH [OF False, of "Some r"] obtain k where k: "k < length rs"
        "choose_loop rnd title artist rs (Some r) (?sc r) = Some (rs ! k)"
        "?sc r < ?sc (rs ! k)"
        "\<forall>j<length rs. ?sc (rs ! j) \<le> ?sc (rs ! k)"
        "\<forall>j<k. ?sc (rs ! j) < ?sc (rs ! k)" by blast
      have 1: "choose_loop rnd title artist (r # rs) best bs = Some ((r # rs) ! Suc k)"
        using True k(2) by (simp add: Let_def)
      have 2: "bs < ?sc ((r # rs) ! Suc k)" using True k(3) by simp
      have 3: "\<forall>j<length (r # rs). ?sc ((r # rs) ! j) \<le> ?sc ((r # rs) ! Suc k)"
        using k(3,4) by (auto simp: nth_Cons split: nat.splits)
      have 4: "\<forall>j<Suc k. ?sc ((r # rs) ! j) < ?sc ((r # rs) ! Suc k)"
        using k(3,5) by (auto simp: nth_Cons split: nat.splits)
      show ?thesis using k(1) 1 2 3 4 by (intro exI [of _ "Suc k"]) simp
    qed
  next
    case False
    then have nr: "\<not> (\<forall>x\<in>set rs. ?sc x \<le> bs)" using Cons.prems by auto
    from Cons.IH [OF nr, of best] obtain k where k: "k < length rs"
      "choose_loop rnd title artist rs best bs = Some (rs ! k)"
      "bs < ?sc (rs ! k)"
      "\<forall>j<length rs. ?sc (rs ! j) \<le> ?sc (rs ! k)"
      "\<forall>j<k. ?sc (rs ! j) < ?sc (rs ! k)" by blast
    have 1: "choose_loop rnd title artist (r # rs) best bs = Some ((r # rs) ! Suc k)"
      using False k(2) by (simp add: Let_def)
    have 2: "bs < ?sc ((r # rs) ! Suc k)" using k(3) by simp
    have 3: "\<forall>j<length (r # rs). ?sc ((r # rs) ! j) \<le> ?sc ((r # rs) ! Suc k)"
      using False k(3,4) by (auto simp: nth_Cons split: nat.splits)
    have 4: "\<forall>j<Suc k. ?sc ((r # rs) ! j) < ?sc ((r # rs) ! Suc k)"
      using False k(3,5) by (auto simp: nth_Cons split: nat.splits)
    show ?thesis using k(1) 1 2 3 4 by (intro exI [of _ "Suc k"]) simp
  qed
qed

lemma lower_char_idem: "lower_char (lower_char c) = lower_char c"
proof -
  let ?n = "of_char c :: nat"
  show ?thesis
  proof (cases "(65 \<le> ?n \<and> ?n \<le> 90) \<or> (192 \<le> ?n \<and> ?n \<le> 222 \<and> ?n \<noteq> 215)")
    case True
    then have l: "lower_char c = char_of (?n + 32)" by (simp add: lower_char_def Let_def)
    have "of_char (char_of (?n + 32) :: char) = (?n + 32) mod 256" by simp
    also have "\<dots> = ?n + 32" using True by auto
    finally have "of_char (lower_char c) = ?n + 32" using l by simp
    then show ?thesis using True by (auto simp: lower_char_def [of "lower_char c"] Let_def)
  next
    case False
    then have "lower_char c = c" by (auto simp: lower_char_def Let_def)
    then show ?thesis by simp
  qed
qed

lemma lower_idem: "lower (lower s) = lower s"
  by (simp add: lower_def lower_char_idem)



lemma similar_range:
  "mono rnd \<Longrightarrow> \<forall>n::nat. rnd (real n) = real n \<Longrightarrow>
   0 \<le> similar rnd a b \<and> similar rnd a b \<le> 1"
  unfolding similar_def by (rule ratio_range)

lemma similar_lower: "similar rnd (lower a) (lower b) = similar rnd a b"
  by (simp add: similar_def lower_idem)

lemma choose_best_none_iff_lemma:
  "choose_best_recording rnd res title artist = None \<longleftrightarrow>
   (\<forall>r\<in>set (list_or_empty (res_recordings res)). cand_score rnd title artist r \<le> 0)"
proof (cases "\<forall>r\<in>set (list_or_empty (res_recordings res)). cand_score rnd title artist r \<le> 0")
  case True
  then show ?thesis using choose_loop_keep [OF True, of None]
    by (simp add: choose_best_recording_def)
next
  case False
  then show ?thesis using choose_loop_pick [OF False, of None]
    by (auto simp: choose_best_recording_def)
qed

lemma choose_best_Some:
  assumes "choose_best_recording rnd res title artist = Some w"
  shows "\<exists>k<length (list_or_empty (res_recordings res)).
           w = list_or_empty (res_recordings res) ! k \<and>
           0 < cand_score rnd title artist w \<and>
           (\<forall>j<length (list_or_empty (res_recordings res)).
              cand_score rnd title artist (list_or_empty (res_recordings res) ! j)
                \<le> cand_score rnd title artist w) \<and>
           (\<forall>j<k. cand_score rnd title artist (list_or_empty (res_recordings res) ! j)
                     < cand_score rnd title artist w)"
proof -
  let ?rs = "list_or_empty (res_recordings res)"
  have "\<not> (\<forall>r\<in>set ?rs. cand_score rnd title artist r \<le> 0)"
    using assms choose_best_none_iff_lemma [of rnd res title artist] by simp
  from choose_loop_pick [OF this, of None] obtain k where k: "k < length ?rs"
    "choose_loop rnd title artist ?rs None 0 = Some (?rs ! k)"
    "0 < cand_score rnd title artist (?rs ! k)"
    "\<forall>j<length ?rs. cand_score rnd title artist (?rs ! j) \<le> cand_score rnd title artist (?rs ! k)"
    "\<forall>j<k. cand_score rnd title artist (?rs ! j) < cand_score rnd title artist (?rs ! k)"
    by blast
  have "w = ?rs ! k" using assms k(2) by (simp add: choose_best_recording_def)
  then show ?thesis using k by blast
qed

text \<open>
  C3 (as amended). \<open>choose_best_recording\<close> returns none if and only if no candidate
  scores above 0, which is so in particular when the candidate list is empty. When it
  returns a candidate, this is one of the candidates given, its score is above 0 and no
  candidate scores higher.
\<close>

theorem choose_best_recording_result:
  "(choose_best_recording rnd res title artist = None \<longleftrightarrow>
      (\<forall>r\<in>set (list_or_empty (res_recordings res)). cand_score rnd title artist r \<le> 0)) \<and>
   (list_or_empty (res_recordings res) = [] \<longrightarrow>
      choose_best_recording rnd res title artist = None) \<and>
   (\<forall>w. choose_best_recording rnd res title artist = Some w \<longrightarrow>
      w \<in> set (list_or_empty (res_recordings res)) \<and>
      0 < cand_score rnd title artist w \<and>
      (\<forall>r\<in>set (list_or_empty (res_recordings res)).
         cand_score rnd title artist r \<le> cand_score rnd title artist w))"
proof (intro conjI allI impI)
  show "choose_best_recording rnd res title artist = None \<longleftrightarrow>
      (\<forall>r\<in>set (list_or_empty (res_recordings res)). cand_score rnd title artist r \<le> 0)"
    by (rule choose_best_none_iff_lemma)
next
  assume "list_or_empty (res_recordings res) = []"
  then show "choose_best_recording rnd res title artist = None"
    by (simp add: choose_best_recording_def)
next
  fix w assume a: "choose_best_recording rnd res title artist = Some w"
  from choose_best_Some [OF a] obtain k where k: "k < length (list_or_empty (res_recordings res))"
    "w = list_or_empty (res_recordings res) ! k"
    "0 < cand_score rnd title artist w"
    "\<forall>j<length (list_or_empty (res_recordings res)).
       cand_score rnd title artist (list_or_empty (res_recordings res) ! j)
         \<le> cand_score rnd title artist w" by blast
  show "w \<in> set (list_or_empty (res_recordings res))" using k(1,2) by simp
  show "0 < cand_score rnd title artist w" by (rule k(3))
  show "\<forall>r\<in>set (list_or_empty (res_recordings res)).
         cand_score rnd title artist r \<le> cand_score rnd title artist w"
    using k(4) by (auto simp: in_set_conv_nth)
qed

lemma example_winner:
  "choose_best_recording (\<lambda>x. x) example_results ''hello'' (Some ''adele'')
     = Some (candidate ''Hello'' ''Adele'')"
  by code_simp

lemma example_scores:
  "cand_score (\<lambda>x. x) ''hello'' (Some ''adele'') (candidate ''Hello'' ''Adele'') = 1"
  "cand_score (\<lambda>x. x) ''hello'' (Some ''adele'') (candidate ''hello'' ''ADELE'') = 1"
  by code_simp+

text \<open>The strings a and b share no character; their score is 0 under every rounding that keeps 0.\<close>

lemma unrelated_matches: "matches (lower ''a'') (lower ''b'') 0 (length (lower ''a'')) 0 (length (lower ''b'')) = 0"
  by code_simp

lemma unrelated_none:
  assumes "rnd 0 = 0"
  shows "choose_best_recording rnd unrelated_results ''a'' None = None"
proof -
  have t: "title_of (candidate ''b'' ''c'') = ''b''" by (simp add: title_of_def candidate_def)
  have "similar rnd ''a'' ''b'' = 0"
    using unrelated_matches assms by (simp add: similar_def ratio_def Let_def lower_def)
  then have "cand_score rnd ''a'' None (candidate ''b'' ''c'') = 0"
    using assms t by (simp add: cand_score_def Let_def)
  then show ?thesis by (simp add: choose_best_recording_def unrelated_results_def Let_def)
qed

text \<open>
  The claim as first stated fails on a candidate list that is not empty and whose only
  candidate scores 0: its title has no character in common with the title asked for,
  no artist is given, and the result is none. Every value computed on the way is 0, so
  rounding plays no part (\<open>unrelated_none\<close>).
\<close>

theorem choose_best_recording_counterexample:
  "list_or_empty (res_recordings unrelated_results) = [candidate ''b'' ''c''] \<and>
   choose_best_recording (\<lambda>x. x) unrelated_results ''a'' None = None"
  by code_simp


theorem choose_best_recording_result_witness:
  "choose_best_recording (\<lambda>x. x) example_results ''hello'' (Some ''adele'')
     = Some (candidate ''Hello'' ''Adele'') \<and>
   candidate ''Hello'' ''Adele'' \<in> set (list_or_empty (res_recordings example_results)) \<and>
   0 < cand_score (\<lambda>x. x) ''hello'' (Some ''adele'') (candidate ''Hello'' ''Adele'') \<and>
   list_or_empty (res_recordings no_results) = [] \<and>
   choose_best_recording (\<lambda>x. x) no_results ''hello'' None = None"
proof -
  note t = choose_best_recording_result [of "\<lambda>x. x" example_results "''hello''" "Some ''adele''"]
  have w: "choose_best_recording (\<lambda>x. x) example_results ''hello'' (Some ''adele'')
             = Some (candidate ''Hello'' ''Adele'')" by (rule example_winner)
  have 1: "candidate ''Hello'' ''Adele'' \<in> set (list_or_empty (res_recordings example_results))"
    and 2: "0 < cand_score (\<lambda>x. x) ''hello'' (Some ''adele'') (candidate ''Hello'' ''Adele'')"
    using t w by blast+
  have e: "list_or_empty (res_recordings no_results) = []" by (simp add: no_results_def)
  then have 3: "choose_best_recording (\<lambda>x. x) no_results ''hello'' None = None"
    using choose_best_recording_result [of "\<lambda>x. x" no_results "''hello''" None] by blast
  show ?thesis using w 1 2 e 3 by blast
qed

lemma cand_score_exact:
  "cand_score (\<lambda>x. x) title artist r =
     6 / 10 * similar (\<lambda>x. x) title (title_of r)
     + (if truthy artist then 4 / 10 * similar (\<lambda>x. x) (str_or artist []) (artist_names r)
        else 0)"
  by (simp add: cand_score_def Let_def)

lemma choose_loop_not_displaced:
  "cand_score rnd title artist r \<le> bs \<Longrightarrow>
   choose_loop rnd title artist (r # rs) best bs = choose_loop rnd title artist rs best bs"
  by (simp add: Let_def)

text \<open>
  C8. The similarity of two strings is the ratio of their lowercased forms, and lies
  between 0 and 1 whenever rounding is monotone and exact on the natural numbers. The
  score of a candidate is 0.6 times the title similarity plus, when an artist is given,
  0.4 times the artist similarity, each product and sum rounded; without rounding it is
  that weighted sum. The winner is a function of the candidate list and the hypothesis.
  It is the first candidate, in list order, that reaches the highest score: every
  earlier candidate scores strictly less. A candidate that scores no more than the
  current best, in particular one that scores the same, leaves the winner unchanged.
\<close>

theorem choose_best_recording_scoring:
  "(mono rnd \<and> (\<forall>n::nat. rnd (real n) = real n) \<longrightarrow>
      0 \<le> similar rnd a b \<and> similar rnd a b \<le> 1) \<and>
   similar rnd (lower a) (lower b) = similar rnd a b \<and>
   cand_score rnd title artist r =
     (if truthy artist
      then rnd (rnd (0 + rnd (rnd (6 / 10) * similar rnd title (title_of r)))
                + rnd (rnd (4 / 10) * similar rnd (str_or artist []) (artist_names r)))
      else rnd (0 + rnd (rnd (6 / 10) * similar rnd title (title_of r)))) \<and>
   cand_score (\<lambda>x. x) title artist r =
     6 / 10 * similar (\<lambda>x. x) title (title_of r)
     + (if truthy artist then 4 / 10 * similar (\<lambda>x. x) (str_or artist []) (artist_names r)
        else 0) \<and>
   (\<forall>w. choose_best_recording rnd res title artist = Some w \<longrightarrow>
      (\<exists>k<length (list_or_empty (res_recordings res)).
         w = list_or_empty (res_recordings res) ! k \<and>
         (\<forall>j<length (list_or_empty (res_recordings res)).
            cand_score rnd title artist (list_or_empty (res_recordings res) ! j)
              \<le> cand_score rnd title artist w) \<and>
         (\<forall>j<k. cand_score rnd title artist (list_or_empty (res_recordings res) ! j)
                   < cand_score rnd title artist w))) \<and>
   (cand_score rnd title artist r \<le> best_score \<longrightarrow>
      choose_loop rnd title artist (r # rs) best best_score
        = choose_loop rnd title artist rs best best_score)"
proof (intro conjI allI impI)
  assume "mono rnd \<and> (\<forall>n::nat. rnd (real n) = real n)"
  then show "0 \<le> similar rnd a b" "similar rnd a b \<le> 1" using similar_range by blast+
next
  show "similar rnd (lower a) (lower b) = similar rnd a b" by (rule similar_lower)
next
  show "cand_score rnd title artist r =
     (if truthy artist
      then rnd (rnd (0 + rnd (rnd (6 / 10) * similar rnd title (title_of r)))
                + rnd (rnd (4 / 10) * similar rnd (str_or artist []) (artist_names r)))
      else rnd (0 + rnd (rnd (6 / 10) * similar rnd title (title_of r))))"
    by (simp add: cand_score_def Let_def)
next
  show "cand_score (\<lambda>x. x) title artist r =
     6 / 10 * similar (\<lambda>x. x) title (title_of r)
     + (if truthy artist then 4 / 10 * similar (\<lambda>x. x) (str_or artist []) (artist_names r)
        else 0)"
    by (rule cand_score_exact)
next
  fix w assume "choose_best_recording rnd res title artist = Some w"
  from choose_best_Some [OF this]
  show "\<exists>k<length (list_or_empty (res_recordings res)).
         w = list_or_empty (res_recordings res) ! k \<and>
         (\<forall>j<length (list_or_empty (res_recordings res)).
            cand_score rnd title artist (list_or_empty (res_recordings res) ! j)
              \<le> cand_score rnd title artist w) \<and>
         (\<forall>j<k. cand_score rnd title artist (list_or_empty (res_recordings res) ! j)
                   < cand_score rnd title artist w)"
    by blast
next
  assume "cand_score rnd title artist r \<le> best_score"
  then show "choose_loop rnd title artist (r # rs) best best_score
        = choose_loop rnd title artist rs best best_score"
    by (rule choose_loop_not_displaced)
qed

theorem choose_best_recording_scoring_witness:
  "mono (\<lambda>x::real. x) \<and>
   0 \<le> similar (\<lambda>x. x) ''Hello'' ''help'' \<and> similar (\<lambda>x. x) ''Hello'' ''help'' \<le> 1 \<and>
   cand_score (\<lambda>x. x) ''hello'' (Some ''adele'') (candidate ''Hello'' ''Adele'')
     = cand_score (\<lambda>x. x) ''hello'' (Some ''adele'') (candidate ''hello'' ''ADELE'') \<and>
   choose_best_recording (\<lambda>x. x) example_results ''hello'' (Some ''adele'')
     = Some (list_or_empty (res_recordings example_results) ! 1) \<and>
   choose_loop (\<lambda>x. x) ''hello'' (Some ''adele'') [candidate ''hello'' ''ADELE'']
       (Some (candidate ''Hello'' ''Adele'')) 1
     = Some (candidate ''Hello'' ''Adele'')"
proof -
  have m: "mono (\<lambda>x::real. x)" by (simp add: mono_def)
  have n: "\<forall>n::nat. (\<lambda>x::real. x) (real n) = real n" by simp
  note t = choose_best_recording_scoring
    [of "\<lambda>x. x" "''Hello''" "''help''" "''hello''" "Some ''adele''" "candidate ''hello'' ''ADELE''"
        example_results 1 "[]" "Some (candidate ''Hello'' ''Adele'')"]
  have 1: "0 \<le> similar (\<lambda>x. x) ''Hello'' ''help'' \<and> similar (\<lambda>x. x) ''Hello'' ''help'' \<le> 1"
    using t m n by blast
  have s: "cand_score (\<lambda>x. x) ''hello'' (Some ''adele'') (candidate ''hello'' ''ADELE'') \<le> 1"
    using example_scores(2) by simp
  have "choose_loop (\<lambda>x. x) ''hello'' (Some ''adele'') [candidate ''hello'' ''ADELE'']
          (Some (candidate ''Hello'' ''Adele'')) 1
        = choose_loop (\<lambda>x. x) ''hello'' (Some ''adele'') [] (Some (candidate ''Hello'' ''Adele'')) 1"
    using t s by blast
  then have 2: "choose_loop (\<lambda>x. x) ''hello'' (Some ''adele'') [candidate ''hello'' ''ADELE'']
          (Some (candidate ''Hello'' ''Adele'')) 1 = Some (candidate ''Hello'' ''Adele'')"
    by simp
  have 3: "list_or_empty (res_recordings example_results) ! 1 = candidate ''Hello'' ''Adele''"
    by (simp add: example_results_def)
  show ?thesis using m 1 2 3 example_winner example_scores by simp
qed

section \<open>Properties of the deterministic producer check\<close>

text \<open>
  C1 (as amended). The check is indeterminate exactly when the producer list is empty,
  whatever the claimed name. Otherwise it looks only at the producer names that are not
  the empty string: it is true if one of them, lowercased and trimmed, equals the
  lowercased and trimmed claim; else true if the lowercased, trimmed claim occurs in the
  lowercased form of one of them; else false.
\<close>

theorem producer_check_result:
  "(deterministic_producer_check i q = None \<longleftrightarrow> producers_of i = []) \<and>
   deterministic_producer_check i q =
     (if producers_of i = [] then None
      else if \<exists>p\<in>set (producers_of i). p \<noteq> [] \<and> strip (lower p) = strip (lower q)
           then Some True
      else if \<exists>p\<in>set (producers_of i). p \<noteq> [] \<and> str_in (strip (lower q)) (lower p)
           then Some True
      else Some False)"
  using producers_empty_if_info_empty [of i]
  by (auto simp: deterministic_producer_check_def Let_def exact_pass_iff substring_pass_iff)

theorem producer_check_result_witness:
  "deterministic_producer_check
     \<lparr>info_title = Some ''Skeletons'', info_length_ms = None, info_artists = None,
      info_release_title = None, info_release_date = None,
      info_credits = Some [''producer'' \<mapsto> [''Tame Impala'']], info_mbid = None\<rparr>
     '' tame impala '' = Some True"
proof -
  have "\<exists>p\<in>set [''Tame Impala'']. p \<noteq> [] \<and> strip (lower p) = strip (lower '' tame impala '')"
    by code_simp
  then show ?thesis
    using producer_check_result
      [of "\<lparr>info_title = Some ''Skeletons'', info_length_ms = None, info_artists = None,
            info_release_title = None, info_release_date = None,
            info_credits = Some [''producer'' \<mapsto> [''Tame Impala'']], info_mbid = None\<rparr>"
          "'' tame impala ''"]
    by (simp add: producers_of_def)
qed

text \<open>
  The claim as first stated fails on a producer list holding the empty name: the empty
  name, lowercased and trimmed, equals the empty claim, yet both loops skip it and the
  answer is false.
\<close>

theorem producer_check_counterexample:
  "producers_of
     \<lparr>info_title = None, info_length_ms = None, info_artists = None,
      info_release_title = None, info_release_date = None,
      info_credits = Some [''producer'' \<mapsto> [[]]], info_mbid = None\<rparr> = [[]]
   \<and> strip (lower []) = strip (lower [])
   \<and> deterministic_producer_check
     \<lparr>info_title = None, info_length_ms = None, info_artists = None,
      info_release_title = None, info_release_date = None,
      info_credits = Some [''producer'' \<mapsto> [[]]], info_mbid = None\<rparr> [] = Some False"
  by code_simp

text \<open>
  C9. The two-pass check and the variant that runs the substring loop alone give the same
  answer on every record and every claim: a name that equals the claim after trimming
  contains it.
\<close>

theorem two_pass_equals_substring_only:
  "deterministic_producer_check i q = substring_only_check i q"
  using exact_imp_substring [of "strip (lower q)" "producers_of i"]
  by (auto simp: deterministic_producer_check_def substring_only_check_def Let_def)

end
